theory Spec2Isabelle
  imports Complex_Main "HOL-Library.AList"
begin

section \<open>Characters and the string methods of Python that the parser calls\<close>

text \<open>
  A Python \<open>str\<close> is a sequence of code points. The model is over \<^typ>\<open>string\<close>, so a
  character of the model is a code point below 256; the classifications below are the
  ones CPython's Unicode database gives on that range. The en dash that occurs in one
  character class of \<open>DATE_PATTERN\<close> is code point 8211 and cannot occur in a modelled
  input.
\<close>

abbreviation nl :: char where "nl \<equiv> CHR 0x0A"

definition cp :: "char \<Rightarrow> nat" where
  "cp c = of_char c"

text \<open>\<open>str.isspace\<close>, also the class \<open>\s\<close> of \<open>re\<close> and the set \<open>str.strip\<close> removes.\<close>

definition isspace :: "char \<Rightarrow> bool" where
  "isspace c = ((9 \<le> cp c \<and> cp c \<le> 13) \<or> (28 \<le> cp c \<and> cp c \<le> 32) \<or> cp c = 133 \<or> cp c = 160)"

text \<open>The class \<open>\d\<close> of \<open>re\<close>.\<close>

definition isdigit :: "char \<Rightarrow> bool" where
  "isdigit c = (48 \<le> cp c \<and> cp c \<le> 57)"

definition isupper :: "char \<Rightarrow> bool" where
  "isupper c = ((65 \<le> cp c \<and> cp c \<le> 90) \<or> (192 \<le> cp c \<and> cp c \<le> 222 \<and> cp c \<noteq> 215))"

definition islower :: "char \<Rightarrow> bool" where
  "islower c = ((97 \<le> cp c \<and> cp c \<le> 122) \<or> cp c = 170 \<or> cp c = 181 \<or> cp c = 186
      \<or> (223 \<le> cp c \<and> cp c \<noteq> 247))"

text \<open>The class \<open>\w\<close> of \<open>re\<close>: alphanumeric (letters, digits, numeric characters) or underscore.\<close>

definition isword :: "char \<Rightarrow> bool" where
  "isword c = (isdigit c \<or> isupper c \<or> islower c \<or> cp c = 95
      \<or> cp c = 178 \<or> cp c = 179 \<or> cp c = 185 \<or> (188 \<le> cp c \<and> cp c \<le> 190))"

definition lower_ch :: "char \<Rightarrow> char" where
  "lower_ch c = (if isupper c then char_of (cp c + 32) else c)"

text \<open>
  Upper-casing is applied by the parser to the keywords of \<open>SKILLS_DB\<close> only, which are
  ASCII; the three lower-case letters of the range whose upper case lies outside it
  (181, 223, 255) and the two ordinal indicators are left unchanged here.
\<close>

definition upper_ch :: "char \<Rightarrow> char" where
  "upper_ch c = (if (97 \<le> cp c \<and> cp c \<le> 122) \<or> (224 \<le> cp c \<and> cp c \<le> 254 \<and> cp c \<noteq> 247)
                 then char_of (cp c - 32) else c)"

definition lower :: "string \<Rightarrow> string" where
  "lower s = map lower_ch s"

text \<open>\<open>str.capitalize\<close>: the first character upper-cased, the others lower-cased.\<close>

definition capitalize :: "string \<Rightarrow> string" where
  "capitalize s = (case s of [] \<Rightarrow> [] | c # cs \<Rightarrow> upper_ch c # lower cs)"

text \<open>\<open>str.title\<close>: a character after a cased one is lower-cased, any other is upper-cased.\<close>

primrec title_from :: "bool \<Rightarrow> string \<Rightarrow> string" where
  "title_from previous_is_cased [] = []"
| "title_from previous_is_cased (c # cs) =
     (if previous_is_cased then lower_ch c else upper_ch c) # title_from (isupper c \<or> islower c) cs"

definition title_str :: "string \<Rightarrow> string" where
  "title_str s = title_from False s"

text \<open>\<open>str.strip()\<close>.\<close>

definition strip :: "string \<Rightarrow> string" where
  "strip s = rev (dropWhile isspace (rev (dropWhile isspace s)))"

text \<open>\<open>s.split(d)\<close> for a one-character separator: \<open>''.split(d)\<close> is \<open>['']\<close>.\<close>

primrec split_acc :: "char \<Rightarrow> string \<Rightarrow> string \<Rightarrow> string list" where
  "split_acc d acc [] = [rev acc]"
| "split_acc d acc (c # cs) =
     (if c = d then rev acc # split_acc d [] cs else split_acc d (c # acc) cs)"

definition split_on :: "char \<Rightarrow> string \<Rightarrow> string list" where
  "split_on d s = split_acc d [] s"

text \<open>\<open>s.split()\<close>: the maximal runs of characters that are not whitespace.\<close>

primrec split_ws_acc :: "string \<Rightarrow> string \<Rightarrow> string list" where
  "split_ws_acc acc [] = (if acc = [] then [] else [rev acc])"
| "split_ws_acc acc (c # cs) =
     (if isspace c then (if acc = [] then split_ws_acc [] cs else rev acc # split_ws_acc [] cs)
      else split_ws_acc (c # acc) cs)"

definition split_ws :: "string \<Rightarrow> string list" where
  "split_ws s = split_ws_acc [] s"

text \<open>\<open>sep.join(xs)\<close>.\<close>

fun join :: "string \<Rightarrow> string list \<Rightarrow> string" where
  "join sep [] = []"
| "join sep [x] = x"
| "join sep (x # y # ys) = x @ sep @ join sep (y # ys)"

text \<open>\<open>xs[a:b]\<close> for indices that are not negative.\<close>

definition slice :: "'a list \<Rightarrow> nat \<Rightarrow> nat \<Rightarrow> 'a list" where
  "slice xs a b = take (b - a) (drop a xs)"

text \<open>An index read raises \<open>IndexError\<close> out of range.\<close>

datatype error = IndexError

definition idx :: "'a list \<Rightarrow> nat \<Rightarrow> error + 'a" where
  "idx xs i = (if i < length xs then Inr (xs ! i) else Inl IndexError)"

text \<open>Sequencing of two computations that may raise: the first error ends the run.\<close>

definition bindE :: "error + 'a \<Rightarrow> ('a \<Rightarrow> error + 'b) \<Rightarrow> error + 'b" where
  "bindE m f = (case m of Inl e \<Rightarrow> Inl e | Inr x \<Rightarrow> f x)"

text \<open>\<open>d.get(k, default)\<close> on a dictionary kept as an association list in insertion order.\<close>

definition dict_get :: "('k \<times> 'v) list \<Rightarrow> 'k \<Rightarrow> 'v \<Rightarrow> 'v" where
  "dict_get d k dflt = (case map_of d k of None \<Rightarrow> dflt | Some v \<Rightarrow> v)"

text \<open>Truth value of an optional string: \<open>None\<close> and the empty string are false.\<close>

definition truthy :: "string option \<Rightarrow> bool" where
  "truthy x = (case x of None \<Rightarrow> False | Some s \<Rightarrow> s \<noteq> [])"


section \<open>Regular expressions: the backtracking matcher of \<open>re\<close>\<close>

text \<open>
  The constructs that the patterns of the parser use. A match attempt returns every way
  to match at the current position, as pairs of the text consumed and the text left, in
  the order in which a backtracking matcher tries them (alternatives left to right,
  repetitions greedy); the first is the match \<open>re\<close> reports. The flag \<open>ic\<close> is
  \<open>re.IGNORECASE\<close>; \<open>prev\<close> is the character before the position, \<open>None\<close> at the start
  of the string.
\<close>

datatype citem = One char | Rng char char | Digit | Space | Word

datatype regex =
    Cls "citem list"
  | Lit string
  | Seq regex regex
  | Alt regex regex
  | Star regex
  | Rep nat nat regex
  | Bol
  | Eol
  | Wb

type_synonym mres = "(string \<times> string) list"

fun item_match :: "bool \<Rightarrow> citem \<Rightarrow> char \<Rightarrow> bool" where
  "item_match ic (One a) c = (if ic then lower_ch c = lower_ch a else c = a)"
| "item_match ic (Rng a b) c =
     ((cp a \<le> cp c \<and> cp c \<le> cp b)
      \<or> (ic \<and> ((cp a \<le> cp (lower_ch c) \<and> cp (lower_ch c) \<le> cp b)
               \<or> (cp a \<le> cp (upper_ch c) \<and> cp (upper_ch c) \<le> cp b))))"
| "item_match ic Digit c = isdigit c"
| "item_match ic Space c = isspace c"
| "item_match ic Word c = isword c"

fun lit_match :: "bool \<Rightarrow> string \<Rightarrow> string \<Rightarrow> (string \<times> string) option" where
  "lit_match ic [] s = Some ([], s)"
| "lit_match ic (a # as) [] = None"
| "lit_match ic (a # as) (c # cs) =
     (if item_match ic (One a) c
      then (case lit_match ic as cs of None \<Rightarrow> None | Some (m, r) \<Rightarrow> Some (c # m, r))
      else None)"

definition nxt :: "char option \<Rightarrow> string \<Rightarrow> char option" where
  "nxt prev m = (if m = [] then prev else Some (last m))"

definition then_m :: "mres \<Rightarrow> (char option \<Rightarrow> string \<Rightarrow> mres) \<Rightarrow> char option \<Rightarrow> mres" where
  "then_m rs k prev =
     concat (map (\<lambda>(m1, r1). map (\<lambda>(m2, r2). (m1 @ m2, r2)) (k (nxt prev m1) r1)) rs)"

text \<open>
  Greedy \<open>*\<close>. Every round consumes a character, so the text itself bounds the number of
  rounds and serves as the recursion argument.
\<close>

primrec star_m :: "(char option \<Rightarrow> string \<Rightarrow> mres) \<Rightarrow> string \<Rightarrow> char option \<Rightarrow> string \<Rightarrow> mres" where
  "star_m f [] prev s = [([], s)]"
| "star_m f (x # fuel) prev s =
     then_m (filter (\<lambda>(m, r). m \<noteq> []) (f prev s)) (star_m f fuel) prev @ [([], s)]"

text \<open>Greedy \<open>{lo,hi}\<close>.\<close>

primrec rep_m :: "(char option \<Rightarrow> string \<Rightarrow> mres) \<Rightarrow> nat \<Rightarrow> nat \<Rightarrow> char option \<Rightarrow> string \<Rightarrow> mres" where
  "rep_m f 0 lo prev s = (if lo = 0 then [([], s)] else [])"
| "rep_m f (Suc hi) lo prev s =
     then_m (f prev s) (rep_m f hi (lo - 1)) prev @ (if lo = 0 then [([], s)] else [])"

definition isword_opt :: "char option \<Rightarrow> bool" where
  "isword_opt p = (case p of None \<Rightarrow> False | Some c \<Rightarrow> isword c)"

primrec rmatch :: "regex \<Rightarrow> bool \<Rightarrow> char option \<Rightarrow> string \<Rightarrow> mres" where
  "rmatch (Cls items) ic prev s =
     (case s of [] \<Rightarrow> []
      | c # cs \<Rightarrow> if list_ex (\<lambda>i. item_match ic i c) items then [([c], cs)] else [])"
| "rmatch (Lit w) ic prev s = (case lit_match ic w s of None \<Rightarrow> [] | Some x \<Rightarrow> [x])"
| "rmatch (Seq a b) ic prev s = then_m (rmatch a ic prev s) (rmatch b ic) prev"
| "rmatch (Alt a b) ic prev s = rmatch a ic prev s @ rmatch b ic prev s"
| "rmatch (Star a) ic prev s = star_m (rmatch a ic) s prev s"
| "rmatch (Rep lo hi a) ic prev s = rep_m (rmatch a ic) hi lo prev s"
| "rmatch Bol ic prev s = (if prev = None then [([], s)] else [])"
| "rmatch Eol ic prev s = (if s = [] \<or> s = [nl] then [([], s)] else [])"
| "rmatch Wb ic prev s =
     (if isword_opt prev \<noteq> isword_opt (case s of [] \<Rightarrow> None | c # _ \<Rightarrow> Some c)
      then [([], s)] else [])"

definition first_match :: "regex \<Rightarrow> bool \<Rightarrow> char option \<Rightarrow> string \<Rightarrow> string option" where
  "first_match r ic prev s = (case rmatch r ic prev s of [] \<Rightarrow> None | (m, _) # _ \<Rightarrow> Some m)"

text \<open>\<open>re.match\<close>: a match at the start of the string.\<close>

definition re_match :: "regex \<Rightarrow> bool \<Rightarrow> string \<Rightarrow> string option" where
  "re_match r ic s = first_match r ic None s"

text \<open>\<open>re.search\<close>: the match at the leftmost position that has one.\<close>

primrec search_from :: "regex \<Rightarrow> bool \<Rightarrow> char option \<Rightarrow> string \<Rightarrow> string option" where
  "search_from r ic prev [] = first_match r ic prev []"
| "search_from r ic prev (c # cs) =
     (case first_match r ic prev (c # cs) of
        Some m \<Rightarrow> Some m
      | None \<Rightarrow> search_from r ic (Some c) cs)"

definition re_search :: "regex \<Rightarrow> bool \<Rightarrow> string \<Rightarrow> string option" where
  "re_search r ic s = search_from r ic None s"

text \<open>
  \<open>re.findall\<close> and \<open>re.split\<close> for a pattern without groups that cannot match the empty
  string, which holds of the three patterns they are called with (lemmas
  \<open>email_re_nonempty\<close>, \<open>DATE_PATTERN_nonempty\<close>, \<open>blank_gap_re_nonempty\<close>): the matches
  from left to right, each search resuming where the last match ended. \<open>skip\<close> counts the
  characters of the last match still to pass over.
\<close>

primrec findall_from :: "regex \<Rightarrow> bool \<Rightarrow> nat \<Rightarrow> char option \<Rightarrow> string \<Rightarrow> string list" where
  "findall_from r ic skip prev [] = []"
| "findall_from r ic skip prev (c # cs) =
     (if skip > 0 then findall_from r ic (skip - 1) (Some c) cs
      else case first_match r ic prev (c # cs) of
             None \<Rightarrow> findall_from r ic 0 (Some c) cs
           | Some m \<Rightarrow>
               (if m = [] then findall_from r ic 0 (Some c) cs
                else m # findall_from r ic (length m - 1) (Some c) cs))"

definition re_findall :: "regex \<Rightarrow> bool \<Rightarrow> string \<Rightarrow> string list" where
  "re_findall r ic s = findall_from r ic 0 None s"

primrec split_from :: "regex \<Rightarrow> bool \<Rightarrow> nat \<Rightarrow> char option \<Rightarrow> string \<Rightarrow> string \<Rightarrow> string list" where
  "split_from r ic skip prev acc [] = [rev acc]"
| "split_from r ic skip prev acc (c # cs) =
     (if skip > 0 then split_from r ic (skip - 1) (Some c) acc cs
      else case first_match r ic prev (c # cs) of
             None \<Rightarrow> split_from r ic 0 (Some c) (c # acc) cs
           | Some m \<Rightarrow>
               (if m = [] then split_from r ic 0 (Some c) (c # acc) cs
                else rev acc # split_from r ic (length m - 1) (Some c) [] cs))"

definition re_split :: "regex \<Rightarrow> bool \<Rightarrow> string \<Rightarrow> string list" where
  "re_split r ic s = split_from r ic 0 None [] s"

text \<open>Derived forms: \<open>r+\<close>, \<open>r?\<close>, \<open>r{n}\<close>, \<open>r{n,}\<close>, an alternation of several branches.\<close>

definition Plus :: "regex \<Rightarrow> regex" where
  "Plus r = Seq r (Star r)"

definition Opt :: "regex \<Rightarrow> regex" where
  "Opt r = Rep 0 1 r"

definition Times :: "nat \<Rightarrow> regex \<Rightarrow> regex" where
  "Times n r = Rep n n r"

definition AtLeast :: "nat \<Rightarrow> regex \<Rightarrow> regex" where
  "AtLeast n r = Seq (Rep n n r) (Star r)"

fun Alts :: "regex list \<Rightarrow> regex" where
  "Alts [] = Cls []"
| "Alts [r] = r"
| "Alts (r # rs) = Alt r (Alts rs)"

definition Seqs :: "regex list \<Rightarrow> regex" where
  "Seqs rs = foldr Seq (butlast rs) (last rs)"


section \<open>The pattern library\<close>

text \<open>\<open>SKILLS_DB\<close>, in the order of the source; \<open>ALL_SKILLS\<close> is its flattening.\<close>

definition SKILLS_DB :: "(string \<times> string list) list" where
  "SKILLS_DB =
    [(''programming'',
       [''python'', ''java'', ''javascript'', ''typescript'', ''c++'', ''c#'', ''c'', ''go'', ''rust'',
        ''ruby'', ''php'', ''swift'', ''kotlin'', ''scala'', ''r'', ''matlab'', ''perl'', ''bash'',
        ''shell'', ''powershell'', ''dart'', ''elixir'', ''haskell'', ''lua'', ''assembly'']),
     (''web'',
       [''html'', ''css'', ''react'', ''angular'', ''vue'', ''node.js'', ''express'', ''django'',
        ''flask'', ''fastapi'', ''spring'', ''asp.net'', ''next.js'', ''nuxt.js'', ''svelte'',
        ''jquery'', ''bootstrap'', ''tailwind'', ''webpack'', ''graphql'', ''rest api'', ''soap'']),
     (''data'',
       [''sql'', ''mysql'', ''postgresql'', ''mongodb'', ''redis'', ''elasticsearch'',
        ''cassandra'', ''dynamodb'', ''oracle'', ''sqlite'', ''firebase'',
        ''pandas'', ''numpy'', ''scipy'', ''matplotlib'', ''seaborn'', ''plotly'',
        ''tableau'', ''power bi'', ''excel'', ''spark'', ''hadoop'', ''hive'', ''kafka'']),
     (''ml_ai'',
       [''machine learning'', ''deep learning'', ''neural networks'', ''nlp'',
        ''computer vision'', ''tensorflow'', ''pytorch'', ''keras'', ''scikit-learn'',
        ''xgboost'', ''lightgbm'', ''hugging face'', ''transformers'', ''llm'', ''bert'',
        ''gpt'', ''reinforcement learning'', ''opencv'', ''yolo'']),
     (''cloud_devops'',
       [''aws'', ''azure'', ''gcp'', ''docker'', ''kubernetes'', ''terraform'', ''ansible'',
        ''jenkins'', ''git'', ''github'', ''gitlab'', ''ci/cd'', ''linux'', ''nginx'',
        ''apache'', ''microservices'', ''serverless'', ''lambda'', ''ec2'', ''s3'']),
     (''soft'',
       [''leadership'', ''communication'', ''teamwork'', ''problem solving'', ''agile'',
        ''scrum'', ''project management'', ''critical thinking'', ''collaboration'',
        ''time management'', ''presentation'', ''mentoring''])]"

definition ALL_SKILLS :: "string list" where
  "ALL_SKILLS = concat (map snd SKILLS_DB)"

text \<open>\<open>SECTION_HEADERS\<close>: label and heading pattern, in the order of the source.\<close>

definition SECTION_HEADERS :: "(string \<times> regex) list" where
  "SECTION_HEADERS =
    [(''education'', Alts (map Lit [''education'', ''academic'', ''qualification'', ''degree'',
        ''university'', ''college''])),
     (''experience'', Alts (map Lit [''experience'', ''work history'', ''employment'', ''career'',
        ''professional background'', ''internship''])),
     (''skills'', Alts (map Lit [''skills'', ''technical skills'', ''competencies'', ''technologies'',
        ''tools'', ''expertise'', ''proficiencies''])),
     (''projects'', Alts (map Lit [''projects'', ''portfolio'', ''works'', ''assignments'',
        ''case studies''])),
     (''certifications'', Alts (map Lit [''certif'', ''licenses'', ''credentials'', ''accreditation''])),
     (''summary'', Alts (map Lit [''summary'', ''objective'', ''profile'', ''about'', ''overview'',
        ''introduction''])),
     (''achievements'', Alts (map Lit [''achievements'', ''awards'', ''honors'', ''accomplishments'',
        ''recognition''])),
     (''languages'', Alts (map Lit [''languages'', ''language proficiency''])),
     (''publications'', Alts (map Lit [''publications'', ''papers'', ''research'', ''articles''])),
     (''references'', Alts (map Lit [''references'', ''referees'']))]"

text \<open>\<open>DEGREE_PATTERNS\<close>; \<open>dot\<close> is the optional full stop \<open>\.?\<close>.\<close>

definition dot :: regex where
  "dot = Opt (Lit ''.'')"

definition DEGREE_PATTERNS :: "regex list" where
  "DEGREE_PATTERNS =
    [Alt (Seqs [Lit ''b'', dot, Lit ''tech'']) (Lit ''bachelor of technology''),
     Alt (Seqs [Lit ''b'', dot, Lit ''e'', dot]) (Lit ''bachelor of engineering''),
     Alt (Seqs [Lit ''b'', dot, Lit ''sc'', dot]) (Lit ''bachelor of science''),
     Alt (Seqs [Lit ''b'', dot, Lit ''a'', dot]) (Lit ''bachelor of arts''),
     Alt (Seqs [Lit ''b'', dot, Lit ''com'']) (Lit ''bachelor of commerce''),
     Alt (Seqs [Lit ''m'', dot, Lit ''tech'']) (Lit ''master of technology''),
     Alt (Seqs [Lit ''m'', dot, Lit ''sc'', dot]) (Lit ''master of science''),
     Alt (Seqs [Lit ''m'', dot, Lit ''b'', dot, Lit ''a'']) (Lit ''master of business''),
     Alt (Seqs [Lit ''m'', dot, Lit ''c'', dot, Lit ''a'']) (Lit ''master of computer''),
     Alt (Seqs [Lit ''ph'', dot, Lit ''d'']) (Lit ''doctor of philosophy''),
     Alt (Lit ''diploma'') (Lit ''associate'')]"

text \<open>
  \<open>DATE_PATTERN\<close> (compiled with \<open>re.IGNORECASE | re.VERBOSE\<close>, so the layout of the
  pattern is not part of it): a month name and a year, a numeric month and a year, a
  range of years, or a year.
\<close>

definition month_re :: regex where
  "month_re = Alts
    [Seq (Lit ''jan'') (Opt (Lit ''uary'')), Seq (Lit ''feb'') (Opt (Lit ''ruary'')),
     Seq (Lit ''mar'') (Opt (Lit ''ch'')), Seq (Lit ''apr'') (Opt (Lit ''il'')),
     Lit ''may'', Seq (Lit ''jun'') (Opt (Lit ''e'')),
     Seq (Lit ''jul'') (Opt (Lit ''y'')), Seq (Lit ''aug'') (Opt (Lit ''ust'')),
     Seq (Lit ''sep'') (Opt (Lit ''tember'')), Seq (Lit ''oct'') (Opt (Lit ''ober'')),
     Seq (Lit ''nov'') (Opt (Lit ''ember'')), Seq (Lit ''dec'') (Opt (Lit ''ember''))]"

definition year_re :: regex where
  "year_re = Times 4 (Cls [Digit])"

definition DATE_PATTERN :: regex where
  "DATE_PATTERN =
     Alt (Seq month_re (Seq dot (Seq (Star (Cls [Space])) year_re)))
    (Alt (Seq (Rep 1 2 (Cls [Digit])) (Seq (Cls [One CHR ''/'', One CHR ''-'']) year_re))
    (Alt (Seq year_re (Seq (Star (Cls [Space])) (Seq (Cls [One CHR ''-''])
            (Seq (Star (Cls [Space]))
               (Alts [year_re, Lit ''present'', Lit ''current'', Lit ''now'', Lit ''ongoing''])))))
         year_re))"


section \<open>Field extractors\<close>

definition email_re :: regex where
  "email_re = Seqs
    [Plus (Cls [Rng CHR ''a'' CHR ''z'', Rng CHR ''A'' CHR ''Z'', Rng CHR ''0'' CHR ''9'',
            One CHR ''.'', One CHR ''_'', One CHR ''%'', One CHR ''+'', One CHR ''-'']),
     Lit ''@'',
     Plus (Cls [Rng CHR ''a'' CHR ''z'', Rng CHR ''A'' CHR ''Z'', Rng CHR ''0'' CHR ''9'',
            One CHR ''.'', One CHR ''-'']),
     Lit ''.'',
     AtLeast 2 (Cls [Rng CHR ''a'' CHR ''z'', Rng CHR ''A'' CHR ''Z''])]"

definition extract_email :: "string \<Rightarrow> error + string option" where
  "extract_email text =
     (let matches = re_findall email_re False text
      in if matches \<noteq> []
         then (case idx matches 0 of Inl e \<Rightarrow> Inl e | Inr m \<Rightarrow> Inr (Some m))
         else Inr None)"

definition sep_re :: regex where
  "sep_re = Cls [One CHR ''-'', Space]"

definition phone_patterns :: "regex list" where
  "phone_patterns =
    [Seqs [Opt (Seq (Lit ''+91'') (Opt sep_re)), Cls [Rng CHR ''6'' CHR ''9''], Times 9 (Cls [Digit])],
     Seqs [Opt (Seq (Lit ''+1'') (Opt sep_re)), Opt (Lit ''(''), Times 3 (Cls [Digit]), Opt (Lit '')''),
           sep_re, Times 3 (Cls [Digit]), sep_re, Times 4 (Cls [Digit])],
     Seqs [Opt (Seqs [Lit ''+'', Rep 1 3 (Cls [Digit]), Opt sep_re]), Rep 10 14 (Cls [Digit])]]"

primrec phone_loop :: "regex list \<Rightarrow> string \<Rightarrow> string option" where
  "phone_loop [] text = None"
| "phone_loop (p # ps) text =
     (case re_search p False text of
        Some m \<Rightarrow> Some (strip m)
      | None \<Rightarrow> phone_loop ps text)"

definition extract_phone :: "string \<Rightarrow> string option" where
  "extract_phone text = phone_loop phone_patterns text"

definition handle_re :: regex where
  "handle_re = Plus (Cls [Word, One CHR ''-''])"

definition extract_linkedin :: "string \<Rightarrow> string option" where
  "extract_linkedin text =
     (case re_search (Seq (Lit ''linkedin.com/in/'') handle_re) True text of
        Some m \<Rightarrow> Some (''https://'' @ m)
      | None \<Rightarrow> None)"

definition extract_github :: "string \<Rightarrow> string option" where
  "extract_github text =
     (case re_search (Seq (Lit ''github.com/'') handle_re) True text of
        Some m \<Rightarrow> Some (''https://'' @ m)
      | None \<Rightarrow> None)"

text \<open>\<open>[l.strip() for l in text.split("\n") if l.strip()]\<close>\<close>

definition nonempty_lines :: "string \<Rightarrow> string list" where
  "nonempty_lines text = map strip (filter (\<lambda>l. strip l \<noteq> []) (split_on nl text))"

definition ignore_re :: regex where
  "ignore_re = Alts
    [Lit ''resume'', Lit ''curriculum'', Lit ''vitae'', Lit ''cv'', Lit ''email'', Lit ''phone'',
     Lit ''linkedin'', Lit ''github'', Lit ''@'', Lit ''http'', Lit ''www'', Times 10 (Cls [Digit])]"

text \<open>\<open>all(w[0].isupper() for w in words if w)\<close>\<close>

primrec all_upper :: "string list \<Rightarrow> error + bool" where
  "all_upper [] = Inr True"
| "all_upper (w # ws) =
     (if w \<noteq> []
      then (case idx w 0 of
              Inl e \<Rightarrow> Inl e
            | Inr c \<Rightarrow> if isupper c then all_upper ws else Inr False)
      else all_upper ws)"

primrec name_loop :: "string list \<Rightarrow> error + string option" where
  "name_loop [] = Inr None"
| "name_loop (line # rest) =
     (let words = split_ws line
      in if 1 < length words \<and> length words \<le> 5 \<and> re_search ignore_re True line = None
         then (case all_upper words of
                 Inl e \<Rightarrow> Inl e
               | Inr ok \<Rightarrow> if ok then Inr (Some line) else name_loop rest)
         else name_loop rest)"

text \<open>
  The entity recogniser is not part of the repository: \<open>nlp\<close> is \<open>None\<close> when
  \<open>NLP_SUPPORT\<close> is false, and otherwise the function from a text to its entities, each
  with its label and its text, in document order.
\<close>

type_synonym recogniser = "(string \<Rightarrow> (string \<times> string) list) option"

text \<open>The first entity labelled \<open>PERSON\<close> in the first 500 characters, when a recogniser is there.\<close>

definition person_entity :: "recogniser \<Rightarrow> string \<Rightarrow> (string \<times> string) option" where
  "person_entity nlp text =
     (case nlp of
        None \<Rightarrow> None
      | Some f \<Rightarrow> find (\<lambda>ent. fst ent = ''PERSON'') (f (take 500 text)))"

definition extract_name :: "recogniser \<Rightarrow> string \<Rightarrow> error + string option" where
  "extract_name nlp text =
     (case person_entity nlp text of
        Some ent \<Rightarrow> Inr (Some (strip (snd ent)))
      | None \<Rightarrow> name_loop (take 6 (nonempty_lines text)))"


section \<open>Block extractors\<close>

text \<open>The pattern \<open>\b\<close> + \<open>re.escape(skill)\<close> + \<open>\b\<close>: the keyword as a whole word.\<close>

definition word_re :: "string \<Rightarrow> regex" where
  "word_re skill = Seq Wb (Seq (Lit skill) Wb)"

definition display :: "string \<Rightarrow> string" where
  "display skill = (if length skill \<le> 3 then title_str skill else capitalize skill)"

definition extract_skills :: "string \<Rightarrow> (string \<times> string list) list" where
  "extract_skills text =
     (let text_lower = lower text;
          found = map (\<lambda>(cat, skills).
                    (cat, map display
                       (filter (\<lambda>skill. re_search (word_re skill) False text_lower \<noteq> None) skills)))
                  SKILLS_DB
      in filter (\<lambda>(k, v). v \<noteq> []) found)"

subsection \<open>Sections\<close>

record split_state =
  sections :: "(string \<times> string) list"
  current :: string
  buffer :: "string list"

text \<open>The pattern \<open>"^" + pattern + "[\s:]*$"\<close>.\<close>

definition heading_re :: "regex \<Rightarrow> regex" where
  "heading_re pattern = Seq Bol (Seq pattern (Seq (Star (Cls [Space, One CHR '':''])) Eol))"

text \<open>The inner loop: the first label of \<open>SECTION_HEADERS\<close> whose pattern matches the line.\<close>

definition matched_section :: "string \<Rightarrow> string option" where
  "matched_section stripped =
     map_option fst
       (find (\<lambda>(sec, pattern). re_match (heading_re pattern) True stripped \<noteq> None) SECTION_HEADERS)"

definition flush :: "split_state \<Rightarrow> (string \<times> string) list" where
  "flush st = AList.update (current st) (strip (join [nl] (buffer st))) (sections st)"

definition sections_step :: "split_state \<Rightarrow> string \<Rightarrow> split_state" where
  "sections_step st line =
     (let stripped = strip line;
          m = matched_section stripped
      in if truthy m
         then (case m of
                 Some sec \<Rightarrow> \<lparr>sections = flush st, current = sec, buffer = []\<rparr>
               | None \<Rightarrow> st)
         else st\<lparr>buffer := buffer st @ [line]\<rparr>)"

definition extract_sections :: "string \<Rightarrow> (string \<times> string) list" where
  "extract_sections text =
     flush (foldl sections_step \<lparr>sections = [], current = ''header'', buffer = []\<rparr> (split_on nl text))"

subsection \<open>Education\<close>

record education_record =
  degree :: string
  institution :: string
  edu_dates :: "string list"

definition edu_at :: "string list \<Rightarrow> nat \<Rightarrow> string \<Rightarrow> error + education_record option" where
  "edu_at lines i line =
     (if list_ex (\<lambda>deg. re_search deg True line \<noteq> None) DEGREE_PATTERNS
      then (let context = join '' '' (slice lines (nat (max 0 (int i - 1))) (i + 3));
                dates = re_findall DATE_PATTERN True context
            in case (if i + 1 < length lines then idx lines (i + 1) else Inr []) of
                 Inl e \<Rightarrow> Inl e
               | Inr inst \<Rightarrow> Inr (Some \<lparr>degree = line, institution = inst, edu_dates = dates\<rparr>))
      else Inr None)"

primrec edu_loop :: "string list \<Rightarrow> (nat \<times> string) list \<Rightarrow> education_record list
    \<Rightarrow> error + education_record list" where
  "edu_loop lines [] results = Inr results"
| "edu_loop lines (p # ps) results =
     (case edu_at lines (fst p) (snd p) of
        Inl e \<Rightarrow> Inl e
      | Inr None \<Rightarrow> edu_loop lines ps results
      | Inr (Some r) \<Rightarrow> edu_loop lines ps (results @ [r]))"

definition extract_education :: "string \<Rightarrow> error + education_record list" where
  "extract_education text =
     (let lines = nonempty_lines text in edu_loop lines (enumerate 0 lines) [])"

subsection \<open>Experience\<close>

record experience_record =
  title :: string
  company :: string
  exp_dates :: "string list"
  exp_description :: string

text \<open>The separator \<open>\n{2,}\<close> of both block extractors.\<close>

definition blank_gap_re :: regex where
  "blank_gap_re = AtLeast 2 (Lit [nl])"

definition exp_block :: "string \<Rightarrow> error + experience_record option" where
  "exp_block block =
     (if strip block = [] then Inr None
      else (let dates = re_findall DATE_PATTERN True block;
                lines = nonempty_lines block
            in if dates \<noteq> [] \<and> lines \<noteq> []
               then (case idx lines 0 of
                       Inl e \<Rightarrow> Inl e
                     | Inr t \<Rightarrow>
                        (case (if length lines > 1 then idx lines 1 else Inr []) of
                           Inl e \<Rightarrow> Inl e
                         | Inr c \<Rightarrow> Inr (Some \<lparr>title = t, company = c, exp_dates = dates,
                              exp_description =
                                (if length lines > 2 then join [nl] (drop 2 lines) else [])\<rparr>)))
               else Inr None))"

primrec exp_loop :: "string list \<Rightarrow> experience_record list \<Rightarrow> error + experience_record list" where
  "exp_loop [] results = Inr results"
| "exp_loop (block # blocks) results =
     (case exp_block block of
        Inl e \<Rightarrow> Inl e
      | Inr None \<Rightarrow> exp_loop blocks results
      | Inr (Some r) \<Rightarrow> exp_loop blocks (results @ [r]))"

definition extract_experience :: "string \<Rightarrow> error + experience_record list" where
  "extract_experience text = exp_loop (re_split blank_gap_re False text) []"

subsection \<open>Projects\<close>

record project_record =
  proj_name :: string
  proj_description :: string
  technologies :: "string list"

text \<open>The inner loop over \<open>ALL_SKILLS\<close>, searching the description \<open>desc\<close>.\<close>

definition techs_of :: "string \<Rightarrow> string list" where
  "techs_of desc =
     map capitalize (filter (\<lambda>skill. re_search (word_re skill) True desc \<noteq> None) ALL_SKILLS)"

definition proj_block :: "string \<Rightarrow> error + project_record option" where
  "proj_block block =
     (let lines = nonempty_lines block
      in if lines \<noteq> []
         then (let desc = join [nl] (drop 1 lines);
                   techs = techs_of desc
               in case idx lines 0 of
                    Inl e \<Rightarrow> Inl e
                  | Inr n \<Rightarrow> Inr (Some \<lparr>proj_name = n, proj_description = take 300 desc,
                                technologies = take 8 techs\<rparr>))
         else Inr None)"

primrec proj_loop :: "string list \<Rightarrow> project_record list \<Rightarrow> error + project_record list" where
  "proj_loop [] results = Inr results"
| "proj_loop (block # blocks) results =
     (case proj_block block of
        Inl e \<Rightarrow> Inl e
      | Inr None \<Rightarrow> proj_loop blocks results
      | Inr (Some r) \<Rightarrow> proj_loop blocks (results @ [r]))"

definition extract_projects :: "string \<Rightarrow> error + project_record list" where
  "extract_projects text =
     (case proj_loop (re_split blank_gap_re False text) [] of
        Inl e \<Rightarrow> Inl e
      | Inr results \<Rightarrow> Inr (take 5 results))"


section \<open>Scorer and orchestrator\<close>

record meta_record =
  parsed_at :: string
  word_count :: nat

record contact_record =
  name :: "string option"
  email :: "string option"
  phone :: "string option"
  linkedin :: "string option"
  github :: "string option"

text \<open>
  The dictionary \<open>parsed\<close> as \<open>parse_text\<close> builds it and hands it to the scorer, and its
  extension by the two entries added afterwards.
\<close>

record parsed_base =
  meta :: meta_record
  contact :: contact_record
  summary :: string
  skills :: "(string \<times> string list) list"
  experience :: "experience_record list"
  education :: "education_record list"
  projects :: "project_record list"
  certifications :: string
  languages :: string
  achievements :: string
  raw_sections :: "(string \<times> string) list"

record parsed = parsed_base +
  score :: int
  skill_count :: nat

text \<open>
  \<open>round\<close> of Python: to the nearest integer, a tie to the even one. The score is
  computed over the reals; the three products \<open>20 * 0.4\<close>, \<open>20 * 0.3\<close>, \<open>20 * 0.3\<close> are
  the doubles 8.0, 6.0 and 6.0, and every sum of the scorer is an integer below 101, so
  the floating-point computation of the source has the same values.
\<close>

definition py_round :: "real \<Rightarrow> int" where
  "py_round x =
     (let f = \<lfloor>x\<rfloor>; d = x - of_int f
      in if d < 1 / 2 then f else if 1 / 2 < d then f + 1 else if even f then f else f + 1)"

definition skills_flat :: "(string \<times> string list) list \<Rightarrow> nat" where
  "skills_flat sk = sum_list (map (\<lambda>(k, v). length v) sk)"

definition calculate_score :: "'a parsed_base_scheme \<Rightarrow> int" where
  "calculate_score p =
     (let max_score = 100;
          w_contact = 20; w_summary = 10; w_skills = 25; w_experience = 25;
          w_education = 15; w_projects = 5;
          score = (0 :: real);
          score = (if truthy (email (contact p)) then score + w_contact * 0.4 else score);
          score = (if truthy (phone (contact p)) then score + w_contact * 0.3 else score);
          score = (if truthy (linkedin (contact p)) then score + w_contact * 0.3 else score);
          score = (if summary p \<noteq> [] then score + w_summary else score);
          score = score + min w_skills (real (skills_flat (skills p)) * 2);
          score = score + min w_experience (real (length (experience p)) * 8);
          score = score + min w_education (real (length (education p)) * 7);
          score = score + min w_projects (real (length (projects p)) * 2)
      in py_round (min score max_score))"

text \<open>
  The two assignments that end \<open>parse_text\<close>: \<open>parsed["score"]\<close> and
  \<open>parsed["skill_count"]\<close> are added to the dictionary.
\<close>

definition add_score :: "parsed_base \<Rightarrow> parsed" where
  "add_score p =
     \<lparr>meta = meta p, contact = contact p, summary = summary p, skills = skills p,
      experience = experience p, education = education p, projects = projects p,
      certifications = certifications p, languages = languages p,
      achievements = achievements p, raw_sections = raw_sections p,
      score = calculate_score p,
      skill_count = skills_flat (skills p)\<rparr>"

text \<open>\<open>header_text\<close> of \<open>parse_text\<close>, a local that the function computes and never reads.\<close>

definition header_text :: "string \<Rightarrow> string" where
  "header_text text = dict_get (extract_sections text) ''header'' (take 1000 text)"

text \<open>\<open>now\<close> is the value of \<open>datetime.now().isoformat()\<close> at the call.\<close>

definition parse_text :: "recogniser \<Rightarrow> string \<Rightarrow> string \<Rightarrow> error + parsed" where
  "parse_text nlp now text =
     (let sections = extract_sections text;
          header_text = dict_get sections ''header'' (take 1000 text);
          skills_text = dict_get sections ''skills'' [] @ [nl] @ text;
          exp_text = dict_get sections ''experience'' [];
          edu_text = dict_get sections ''education'' [];
          proj_text = dict_get sections ''projects'' []
      in bindE (extract_name nlp text) (\<lambda>nm.
         bindE (extract_email text) (\<lambda>em.
         bindE (if exp_text \<noteq> [] then extract_experience exp_text else Inr []) (\<lambda>ex.
         bindE (if edu_text \<noteq> [] then extract_education edu_text else extract_education text) (\<lambda>ed.
         bindE (if proj_text \<noteq> [] then extract_projects proj_text else Inr []) (\<lambda>pr.
           (let parsed = \<lparr>meta = \<lparr>parsed_at = now, word_count = length (split_ws text)\<rparr>,
                          contact = \<lparr>name = nm, email = em, phone = extract_phone text,
                                     linkedin = extract_linkedin text, github = extract_github text\<rparr>,
                          summary = dict_get sections ''summary'' [],
                          skills = extract_skills skills_text,
                          experience = ex,
                          education = ed,
                          projects = pr,
                          certifications = dict_get sections ''certifications'' [],
                          languages = dict_get sections ''languages'' [],
                          achievements = dict_get sections ''achievements'' [],
                          raw_sections = map (\<lambda>(k, v). (k, take 500 v)) sections\<rparr>
            in Inr (add_score parsed))))))))"


section \<open>Notions used in the proofs\<close>

text \<open>
  A match attempt is sound when the text consumed and the text left make up the text it
  was given; it forces \<open>P\<close> when every match contains a character that satisfies \<open>P\<close>.
\<close>

definition sound :: "(char option \<Rightarrow> string \<Rightarrow> mres) \<Rightarrow> bool" where
  "sound f = (\<forall>prev s m rest. (m, rest) \<in> set (f prev s) \<longrightarrow> s = m @ rest)"

definition forces :: "(char \<Rightarrow> bool) \<Rightarrow> (char option \<Rightarrow> string \<Rightarrow> mres) \<Rightarrow> bool" where
  "forces P f = (\<forall>prev s m rest. (m, rest) \<in> set (f prev s) \<longrightarrow> (\<exists>c\<in>set m. P c))"

text \<open>The sum of the six contributions of the scorer, as an integer.\<close>

definition score_sum :: "'a parsed_base_scheme \<Rightarrow> int" where
  "score_sum p =
     (if truthy (email (contact p)) then 8 else 0)
   + (if truthy (phone (contact p)) then 6 else 0)
   + (if truthy (linkedin (contact p)) then 6 else 0)
   + (if summary p \<noteq> [] then 10 else 0)
   + min 25 (2 * int (skills_flat (skills p)))
   + min 25 (8 * int (length (experience p)))
   + min 15 (7 * int (length (education p)))
   + min 5 (2 * int (length (projects p)))"

text \<open>
  The blocks of a text in the words of the specification: the pieces between the runs of
  two or more consecutive newlines. A single newline stays inside its block.
\<close>

function blocks_from :: "string \<Rightarrow> string \<Rightarrow> string list" where
  "blocks_from acc [] = [rev acc]"
| "blocks_from acc (c # cs) =
     (if c = nl \<and> take 1 cs = [nl]
      then rev acc # blocks_from [] (dropWhile (\<lambda>x. x = nl) cs)
      else blocks_from (c # acc) cs)"
  by pat_completeness auto
termination
  by (relation "measure (\<lambda>(acc, s). length s)")
     (auto simp: le_imp_less_Suc length_dropWhile_le)

definition blocks :: "string \<Rightarrow> string list" where
  "blocks text = blocks_from [] text"

text \<open>
  The experience extractor in the words of the specification: a block yields a record if
  and only if it contains a date match; the title is its first non-empty line, the company
  its second if there is one, the dates all the date matches of the block, the description
  the lines after the second joined by newlines.
\<close>

definition has_date :: "string \<Rightarrow> bool" where
  "has_date block = (re_findall DATE_PATTERN True block \<noteq> [])"

definition experience_of_block :: "string \<Rightarrow> experience_record" where
  "experience_of_block block =
     (let lines = nonempty_lines block
      in \<lparr>title = hd lines,
          company = (if 2 \<le> length lines then lines ! 1 else []),
          exp_dates = re_findall DATE_PATTERN True block,
          exp_description = (if length lines \<le> 2 then [] else join [nl] (drop 2 lines))\<rparr>)"

text \<open>
  The record of a project block: the name is its first non-empty line; \<open>full_description\<close>
  is the text of the other lines before the cut at 300 characters.
\<close>

definition full_description :: "string \<Rightarrow> string" where
  "full_description block = join [nl] (drop 1 (nonempty_lines block))"

definition project_of_block :: "string \<Rightarrow> project_record" where
  "project_of_block block =
     \<lparr>proj_name = hd (nonempty_lines block),
      proj_description = take 300 (full_description block),
      technologies = take 8 (techs_of (full_description block))\<rparr>"

text \<open>
  A project block whose description is longer than the cut: a name line, then a line of
  300 dashes followed by the word \<open>python\<close>.
\<close>

definition long_project :: string where
  "long_project = ''Tool'' @ [nl] @ replicate 300 CHR ''-'' @ '' python''"

text \<open>A heading line: one that the loop of \<open>extract_sections\<close> matches to a label.\<close>

definition is_heading :: "string \<Rightarrow> bool" where
  "is_heading line = (matched_section (strip line) \<noteq> None)"

text \<open>The lines of all the blocks of a sections dictionary.\<close>

definition section_lines :: "(string \<times> string) list \<Rightarrow> string list" where
  "section_lines d = concat (map (\<lambda>e. split_on nl (snd e)) d)"

text \<open>The trace of the loop: the label and the buffer of every flush, in order.\<close>

fun run_log :: "string \<Rightarrow> string list \<Rightarrow> string list \<Rightarrow> (string \<times> string list) list" where
  "run_log cur buf [] = [(cur, buf)]"
| "run_log cur buf (line # lines) =
     (case matched_section (strip line) of
        Some sec \<Rightarrow> (cur, buf) # run_log sec [] lines
      | None \<Rightarrow> run_log cur (buf @ [line]) lines)"

text \<open>One assignment \<open>sections[current] = "\\n".join(buffer).strip()\<close>.\<close>

definition store :: "(string \<times> string) list \<Rightarrow> string \<times> string list \<Rightarrow> (string \<times> string) list" where
  "store d e = AList.update (fst e) (strip (join [nl] (snd e))) d"


section \<open>Evaluation of the character classes\<close>

text \<open>
  The classifications are decided by the eight bits of a character, the lowest first.
  These equations serve the evaluation of the model on concrete texts.
\<close>

lemma isspace_bits [code]:
  "isspace (Char b0 b1 b2 b3 b4 b5 b6 b7) =
     (\<not> b6 \<and>
       (if b7 then \<not> b4 \<and> \<not> b3 \<and> \<not> b1 \<and> (if b5 then \<not> b2 \<and> \<not> b0 else b2 \<and> b0)
        else if b5 then \<not> b4 \<and> \<not> b3 \<and> \<not> b2 \<and> \<not> b1 \<and> \<not> b0
        else if b4 then b3 \<and> b2
        else b3 \<and> ((\<not> b2 \<and> (b1 \<or> b0)) \<or> (b2 \<and> \<not> b1))))"
  unfolding isspace_def cp_def
  by (cases b0; cases b1; cases b2; cases b3; cases b4; cases b5; cases b6; cases b7; simp)

lemma isdigit_bits [code]:
  "isdigit (Char b0 b1 b2 b3 b4 b5 b6 b7) =
     (\<not> b7 \<and> \<not> b6 \<and> b5 \<and> b4 \<and> (\<not> b3 \<or> (\<not> b2 \<and> \<not> b1)))"
  unfolding isdigit_def cp_def
  by (cases b0; cases b1; cases b2; cases b3; cases b4; cases b5; cases b6; cases b7; simp)

lemma isupper_bits [code]:
  "isupper (Char b0 b1 b2 b3 b4 b5 b6 b7) =
     (\<not> b5 \<and> b6 \<and>
       (if b7 then (\<not> b4 \<or> \<not> (b2 \<and> b1 \<and> b0))
        else if b4 then (\<not> b3 \<or> (\<not> b2 \<and> \<not> (b1 \<and> b0)))
        else (b3 \<or> b2 \<or> b1 \<or> b0)))"
  unfolding isupper_def cp_def
  by (cases b0; cases b1; cases b2; cases b3; cases b4; cases b5; cases b6; cases b7; simp)

lemma islower_bits [code]:
  "islower (Char b0 b1 b2 b3 b4 b5 b6 b7) =
     (if b7
      then (if b6 then (if b5 then \<not> b4 \<or> \<not> (\<not> b3 \<and> b2 \<and> b1 \<and> b0)
                        else b4 \<and> b3 \<and> b2 \<and> b1 \<and> b0)
            else b5 \<and> (if b4 then (\<not> b3 \<and> b2 \<and> \<not> b1 \<and> b0) \<or> (b3 \<and> \<not> b2 \<and> b1 \<and> \<not> b0)
                        else b3 \<and> \<not> b2 \<and> b1 \<and> \<not> b0))
      else b6 \<and> b5 \<and> (if b4 then (\<not> b3 \<or> (\<not> b2 \<and> \<not> (b1 \<and> b0))) else (b3 \<or> b2 \<or> b1 \<or> b0)))"
  unfolding islower_def cp_def
  by (cases b0; cases b1; cases b2; cases b3; cases b4; cases b5; cases b6; cases b7; simp)

lemma isword_bits [code]:
  "isword (Char b0 b1 b2 b3 b4 b5 b6 b7) =
     (isdigit (Char b0 b1 b2 b3 b4 b5 b6 b7) \<or> isupper (Char b0 b1 b2 b3 b4 b5 b6 b7)
      \<or> islower (Char b0 b1 b2 b3 b4 b5 b6 b7)
      \<or> (\<not> b7 \<and> b6 \<and> \<not> b5 \<and> b4 \<and> b3 \<and> b2 \<and> b1 \<and> b0)
      \<or> (b7 \<and> \<not> b6 \<and> b5 \<and> b4 \<and>
           ((\<not> b3 \<and> \<not> b2 \<and> b1) \<or> (b3 \<and> \<not> b2 \<and> \<not> b1 \<and> b0) \<or> (b3 \<and> b2 \<and> \<not> (b1 \<and> b0)))))"
  unfolding isword_def cp_def
  by (cases b0; cases b1; cases b2; cases b3; cases b4; cases b5; cases b6; cases b7; simp)

lemma lower_ch_bits [code]:
  "lower_ch (Char b0 b1 b2 b3 b4 b5 b6 b7) =
     (if isupper (Char b0 b1 b2 b3 b4 b5 b6 b7) then Char b0 b1 b2 b3 b4 True b6 b7
      else Char b0 b1 b2 b3 b4 b5 b6 b7)"
  unfolding lower_ch_def isupper_def cp_def
  by (cases b0; cases b1; cases b2; cases b3; cases b4; cases b5; cases b6; cases b7;
      simp add: char_of_def bit_0)

lemma upper_ch_bits [code]:
  "upper_ch (Char b0 b1 b2 b3 b4 b5 b6 b7) =
     (if b5 \<and> b6 \<and>
         (if b7 then (\<not> b4 \<or> \<not> (b2 \<and> b1 \<and> b0))
          else if b4 then (\<not> b3 \<or> (\<not> b2 \<and> \<not> (b1 \<and> b0)))
          else (b3 \<or> b2 \<or> b1 \<or> b0))
      then Char b0 b1 b2 b3 b4 False b6 b7
      else Char b0 b1 b2 b3 b4 b5 b6 b7)"
  unfolding upper_ch_def cp_def
  by (cases b0; cases b1; cases b2; cases b3; cases b4; cases b5; cases b6; cases b7;
      simp add: char_of_def bit_0)


section \<open>Totality of the extractors\<close>

lemma idx_Inr: "i < length xs \<Longrightarrow> idx xs i = Inr (xs ! i)"
  by (simp add: idx_def)

lemma all_upper_total: "\<exists>b. all_upper ws = Inr b"
  by (induction ws) (auto simp: idx_def)

lemma name_loop_total: "\<exists>r. name_loop ls = Inr r"
proof (induction ls)
  case Nil
  show ?case by simp
next
  case (Cons l ls)
  obtain b where b: "all_upper (split_ws l) = Inr b"
    using all_upper_total by blast
  from Cons b show ?case by (simp add: Let_def)
qed

lemma extract_name_total: "\<exists>r. extract_name nlp text = Inr r"
  using name_loop_total by (simp add: extract_name_def split: option.split)

lemma extract_email_total:
  "extract_email text = Inr (case re_findall email_re False text of [] \<Rightarrow> None | m # _ \<Rightarrow> Some m)"
  by (simp add: extract_email_def idx_def Let_def split: list.split)

lemma edu_at_total: "\<exists>r. edu_at lines i line = Inr r"
  by (simp add: edu_at_def idx_def Let_def)

lemma edu_loop_total: "\<exists>rs. edu_loop lines ps acc = Inr rs"
proof (induction ps arbitrary: acc)
  case Nil
  show ?case by simp
next
  case (Cons p ps)
  obtain r where r: "edu_at lines (fst p) (snd p) = Inr r"
    using edu_at_total by blast
  show ?case using Cons r by (cases r) simp_all
qed

lemma extract_education_total: "\<exists>rs. extract_education text = Inr rs"
  by (simp add: extract_education_def Let_def edu_loop_total)

lemma exp_block_total: "\<exists>r. exp_block b = Inr r"
  by (auto simp: exp_block_def idx_def Let_def)

lemma exp_loop_total: "\<exists>rs. exp_loop bs acc = Inr rs"
proof (induction bs arbitrary: acc)
  case Nil
  show ?case by simp
next
  case (Cons b bs)
  obtain r where r: "exp_block b = Inr r"
    using exp_block_total by blast
  show ?case using Cons r by (cases r) simp_all
qed

lemma extract_experience_total: "\<exists>rs. extract_experience text = Inr rs"
  by (simp add: extract_experience_def exp_loop_total)

lemma proj_block_total: "\<exists>r. proj_block b = Inr r"
  by (auto simp: proj_block_def idx_def Let_def)

lemma proj_loop_total: "\<exists>rs. proj_loop bs acc = Inr rs"
proof (induction bs arbitrary: acc)
  case Nil
  show ?case by simp
next
  case (Cons b bs)
  obtain r where r: "proj_block b = Inr r"
    using proj_block_total by blast
  show ?case using Cons r by (cases r) simp_all
qed

lemma extract_projects_total: "\<exists>rs. extract_projects text = Inr rs"
proof -
  obtain rs where "proj_loop (re_split blank_gap_re False text) [] = Inr rs"
    using proj_loop_total by blast
  then show ?thesis by (simp add: extract_projects_def)
qed

lemma py_round_of_int: "py_round (of_int k) = k"
  by (simp add: py_round_def)

lemma add_if_real: "(if c then s + x else s) = s + (if c then x else (0::real))"
  by simp

lemma contribution_8: "(if c then 20 * 0.4 else (0::real)) = of_int (if c then 8 else 0)"
  by simp

lemma contribution_6: "(if c then 20 * 0.3 else (0::real)) = of_int (if c then 6 else 0)"
  by simp

lemma contribution_10: "(if c then 10 else (0::real)) = of_int (if c then 10 else 0)"
  by simp

lemma contribution_min:
  "min (numeral w) (real n * numeral k) = of_int (min (numeral w) (numeral k * int n))"
  by (simp add: of_int_min mult.commute)

lemma calculate_score_real:
  "calculate_score p =
     py_round (min (0
       + (if truthy (email (contact p)) then 20 * 0.4 else 0)
       + (if truthy (phone (contact p)) then 20 * 0.3 else 0)
       + (if truthy (linkedin (contact p)) then 20 * 0.3 else 0)
       + (if summary p \<noteq> [] then 10 else 0)
       + min 25 (real (skills_flat (skills p)) * 2)
       + min 25 (real (length (experience p)) * 8)
       + min 15 (real (length (education p)) * 7)
       + min 5 (real (length (projects p)) * 2)) 100)"
  unfolding calculate_score_def Let_def add_if_real ..

lemma calculate_score_sum: "calculate_score p = min 100 (score_sum p)"
proof -
  have "calculate_score p = py_round (min (of_int (score_sum p)) (of_int 100))"
    unfolding calculate_score_real contribution_8 contribution_6 contribution_10
      contribution_min score_sum_def
    by (simp only: of_int_add of_int_0 add_0 of_int_numeral)
  also have "\<dots> = py_round (of_int (min 100 (score_sum p)))"
    by (simp only: of_int_min min.commute)
  finally show ?thesis by (simp only: py_round_of_int)
qed

lemma score_sum_bounds: "0 \<le> score_sum p \<and> score_sum p \<le> 100"
  by (simp add: score_sum_def min_def)


section \<open>Properties of the matcher\<close>

lemma lit_match_sound:
  "lit_match ic w s = Some (m, rest) \<Longrightarrow> s = m @ rest \<and> length m = length w"
proof (induction w arbitrary: s m)
  case Nil
  then show ?case by simp
next
  case (Cons a w)
  show ?case
  proof (cases s)
    case Nil
    with Cons.prems show ?thesis by simp
  next
    case c: (Cons c cs)
    from Cons.prems obtain m' where m': "lit_match ic w cs = Some (m', rest)" "m = c # m'"
      unfolding c lit_match.simps by (cases "lit_match ic w cs") (auto split: if_splits)
    from Cons.IH [OF m'(1)] m'(2) c show ?thesis by simp
  qed
qed

lemma in_then_m:
  "(m, rest) \<in> set (then_m rs k prev) \<longleftrightarrow>
     (\<exists>m1 r1 m2. (m1, r1) \<in> set rs \<and> (m2, rest) \<in> set (k (nxt prev m1) r1) \<and> m = m1 @ m2)"
  by (fastforce simp: then_m_def)

lemma sound_then_m:
  assumes "\<And>m r. (m, r) \<in> set rs \<Longrightarrow> s = m @ r" and "sound k"
    and "(m, rest) \<in> set (then_m rs k prev)"
  shows "s = m @ rest"
proof -
  from assms(3) obtain m1 r1 m2 where a: "(m1, r1) \<in> set rs"
    and b: "(m2, rest) \<in> set (k (nxt prev m1) r1)" and c: "m = m1 @ m2"
    by (auto simp: in_then_m)
  from assms(1) [OF a] have "s = m1 @ r1" .
  moreover from assms(2) b have "r1 = m2 @ rest" by (auto simp: sound_def)
  ultimately show ?thesis using c by simp
qed

lemma star_m_sound:
  assumes f: "sound f"
  shows "sound (star_m f fuel)"
proof (induction fuel)
  case Nil
  show ?case by (simp add: sound_def)
next
  case (Cons x fuel)
  show ?case
    unfolding sound_def
  proof (intro allI impI)
    fix prev s m rest
    assume "(m, rest) \<in> set (star_m f (x # fuel) prev s)"
    then consider "(m, rest) \<in> set (then_m (filter (\<lambda>(m, r). m \<noteq> []) (f prev s)) (star_m f fuel) prev)"
      | "m = []" "rest = s"
      by auto
    then show "s = m @ rest"
    proof cases
      case 1
      show ?thesis
      proof (rule sound_then_m [OF _ Cons 1])
        fix m' r'
        assume "(m', r') \<in> set (filter (\<lambda>(m, r). m \<noteq> []) (f prev s))"
        then show "s = m' @ r'" using f by (auto simp: sound_def)
      qed
    next
      case 2
      then show ?thesis by simp
    qed
  qed
qed

lemma rep_m_sound:
  assumes f: "sound f"
  shows "sound (rep_m f hi lo)"
proof (induction hi arbitrary: lo)
  case 0
  show ?case by (simp add: sound_def)
next
  case (Suc hi)
  show ?case
    unfolding sound_def
  proof (intro allI impI)
    fix prev s m rest
    assume "(m, rest) \<in> set (rep_m f (Suc hi) lo prev s)"
    then consider "(m, rest) \<in> set (then_m (f prev s) (rep_m f hi (lo - 1)) prev)"
      | "m = []" "rest = s"
      by (auto split: if_splits)
    then show "s = m @ rest"
    proof cases
      case 1
      show ?thesis
      proof (rule sound_then_m [OF _ Suc 1])
        fix m' r'
        assume "(m', r') \<in> set (f prev s)"
        then show "s = m' @ r'" using f by (auto simp: sound_def)
      qed
    next
      case 2
      then show ?thesis by simp
    qed
  qed
qed

lemma rmatch_sound: "sound (rmatch r ic)"
proof (induction r)
  case (Cls items)
  show ?case by (auto simp: sound_def split: list.splits if_splits)
next
  case (Lit w)
  show ?case by (auto simp: sound_def split: option.splits dest: lit_match_sound [OF sym])
next
  case (Seq a b)
  show ?case
    unfolding sound_def
  proof (intro allI impI)
    fix prev s m rest
    assume "(m, rest) \<in> set (rmatch (Seq a b) ic prev s)"
    then have m: "(m, rest) \<in> set (then_m (rmatch a ic prev s) (rmatch b ic) prev)" by simp
    show "s = m @ rest"
    proof (rule sound_then_m [OF _ Seq(2) m])
      fix m' r'
      assume "(m', r') \<in> set (rmatch a ic prev s)"
      then show "s = m' @ r'" using Seq(1) by (auto simp: sound_def)
    qed
  qed
next
  case (Alt a b)
  then show ?case by (auto simp: sound_def)
next
  case (Star a)
  then show ?case using star_m_sound [of "rmatch a ic"] by (auto simp: sound_def)
next
  case (Rep lo hi a)
  then show ?case using rep_m_sound [of "rmatch a ic"] by (auto simp: sound_def)
qed (auto simp: sound_def split: if_splits)

lemma rmatch_append: "(m, rest) \<in> set (rmatch r ic prev s) \<Longrightarrow> s = m @ rest"
  using rmatch_sound by (auto simp: sound_def)

lemma forces_Seq1: "forces P (rmatch a ic) \<Longrightarrow> forces P (rmatch (Seq a b) ic)"
  by (fastforce simp: forces_def in_then_m)

lemma forces_Seq2: "forces P (rmatch b ic) \<Longrightarrow> forces P (rmatch (Seq a b) ic)"
  by (fastforce simp: forces_def in_then_m)

lemma forces_Alt:
  "forces P (rmatch a ic) \<Longrightarrow> forces P (rmatch b ic) \<Longrightarrow> forces P (rmatch (Alt a b) ic)"
  unfolding forces_def by (metis Un_iff rmatch.simps(4) set_append)

lemma forces_Rep:
  assumes "0 < lo" and "forces P (rmatch a ic)"
  shows "forces P (rmatch (Rep lo hi a) ic)"
proof (cases hi)
  case 0
  with assms show ?thesis by (simp add: forces_def)
next
  case (Suc h)
  with assms show ?thesis by (fastforce simp: forces_def in_then_m)
qed

lemma forces_Cls:
  "(\<And>i c. i \<in> set items \<Longrightarrow> item_match ic i c \<Longrightarrow> P c) \<Longrightarrow> forces P (rmatch (Cls items) ic)"
  by (auto simp: forces_def list_ex_iff split: list.splits if_splits)

lemma forces_Lit:
  assumes "\<And>c. item_match ic (One a) c \<Longrightarrow> P c"
  shows "forces P (rmatch (Lit (a # w)) ic)"
  unfolding forces_def
proof (intro allI impI)
  fix prev s m rest
  assume "(m, rest) \<in> set (rmatch (Lit (a # w)) ic prev s)"
  then have "lit_match ic (a # w) s = Some (m, rest)" by (auto split: option.splits)
  then obtain c cs where "s = c # cs" "item_match ic (One a) c" "c \<in> set m"
    by (cases s) (auto split: if_splits option.splits)
  then show "\<exists>c\<in>set m. P c" using assms by blast
qed

lemma cp_lower_ch: "cp (lower_ch c) = (if isupper c then cp c + 32 else cp c)"
  by (simp add: lower_ch_def cp_def isupper_def)

lemma cp_eq_iff: "cp a = cp b \<longleftrightarrow> a = b"
  by (simp add: cp_def)

lemma item_match_One_plain:
  assumes "cp a < 97" and "\<not> isupper a"
  shows "item_match ic (One a) c \<longleftrightarrow> c = a"
proof (cases "ic \<and> isupper c")
  case True
  have "cp (lower_ch c) \<noteq> cp (lower_ch a)"
    using True assms by (auto simp: cp_lower_ch isupper_def)
  then have "lower_ch c \<noteq> lower_ch a" by (simp add: cp_eq_iff)
  moreover have "c \<noteq> a" using True assms by auto
  ultimately show ?thesis using True by simp
next
  case False
  then show ?thesis using assms by (auto simp: lower_ch_def)
qed

lemma forces_digits: "0 < lo \<Longrightarrow> forces isdigit (rmatch (Rep lo hi (Cls [Digit])) ic)"
  by (rule forces_Rep) (auto intro: forces_Cls)

lemma forces_year: "forces isdigit (rmatch year_re ic)"
  by (simp add: year_re_def Times_def forces_digits)

lemma forces_DATE_PATTERN: "forces isdigit (rmatch DATE_PATTERN ic)"
  unfolding DATE_PATTERN_def
  by (intro forces_Alt forces_year forces_Seq1 [OF forces_year]
        forces_Seq1 [OF forces_digits] forces_Seq2 [OF forces_Seq2 [OF forces_Seq2 [OF forces_year]]])
     simp

lemma forces_phone: "p \<in> set phone_patterns \<Longrightarrow> forces isdigit (rmatch p ic)"
  by (auto simp: phone_patterns_def Seqs_def Times_def intro!: forces_Seq2 forces_digits)

lemma forces_email: "forces (\<lambda>c. c = CHR ''@'') (rmatch email_re ic)"
  unfolding email_re_def Seqs_def
  by (auto intro!: forces_Seq2 [OF forces_Seq1] forces_Lit
        simp: item_match_One_plain isupper_def cp_def simp del: item_match.simps)

lemma forces_blank_gap: "forces (\<lambda>c. c = nl) (rmatch blank_gap_re ic)"
  unfolding blank_gap_re_def AtLeast_def
  by (auto intro!: forces_Seq1 forces_Rep forces_Lit
        simp: item_match_One_plain isupper_def cp_def simp del: item_match.simps)

lemma forces_nonempty: "forces P (rmatch r ic) \<Longrightarrow> ([], rest) \<notin> set (rmatch r ic prev s)"
  unfolding forces_def by (metis empty_iff list.set(1))

lemma in_dropWhile: "x \<in> set xs \<Longrightarrow> \<not> P x \<Longrightarrow> x \<in> set (dropWhile P xs)"
  by (induction xs) auto

lemma strip_nonempty: "c \<in> set s \<Longrightarrow> \<not> isspace c \<Longrightarrow> strip s \<noteq> []"
proof -
  assume c: "c \<in> set s" "\<not> isspace c"
  then have "c \<in> set (rev (dropWhile isspace s))" by (simp add: in_dropWhile)
  with c have "c \<in> set (dropWhile isspace (rev (dropWhile isspace s)))" by (rule_tac in_dropWhile)
  then have "c \<in> set (strip s)" by (simp add: strip_def)
  then show ?thesis by auto
qed

lemma isdigit_not_space: "isdigit c \<Longrightarrow> \<not> isspace c"
  by (auto simp: isdigit_def isspace_def)

lemma isspace_nl: "isspace nl"
  by (simp add: isspace_def cp_def)

lemma split_acc_not_Nil: "split_acc d acc s \<noteq> []"
  by (induction s arbitrary: acc) auto

lemma join_Cons: "ys \<noteq> [] \<Longrightarrow> join sep (x # ys) = x @ sep @ join sep ys"
  by (cases ys) auto

lemma join_split_acc: "join [d] (split_acc d acc s) = rev acc @ s"
  by (induction s arbitrary: acc) (auto simp: join_Cons split_acc_not_Nil)

lemma join_split_on: "join [d] (split_on d s) = s"
  by (simp add: split_on_def join_split_acc)

lemma in_split_acc:
  "c \<in> set acc \<union> set s \<Longrightarrow> c \<noteq> d \<Longrightarrow> \<exists>l\<in>set (split_acc d acc s). c \<in> set l"
  by (induction s arbitrary: acc) (auto split: if_splits)

lemma nonempty_lines_nonempty:
  assumes "c \<in> set s" and "\<not> isspace c"
  shows "nonempty_lines s \<noteq> []"
proof -
  from assms have "c \<noteq> nl" using isspace_nl by auto
  with assms obtain l where l: "l \<in> set (split_on nl s)" "c \<in> set l"
    using in_split_acc [of c "[]" s nl] by (auto simp: split_on_def)
  then have "strip l \<noteq> []" using assms strip_nonempty by blast
  with l have "l \<in> set (filter (\<lambda>l. strip l \<noteq> []) (split_on nl s))" by simp
  then show ?thesis unfolding nonempty_lines_def by (metis empty_iff list.set(1) map_is_Nil_conv)
qed

lemma first_match_Some:
  "first_match r ic prev s = Some m \<Longrightarrow> \<exists>rest. (m, rest) \<in> set (rmatch r ic prev s)"
  by (auto simp: first_match_def split: list.splits)

lemma forcesD: "forces P f \<Longrightarrow> (m, rest) \<in> set (f prev s) \<Longrightarrow> \<exists>c\<in>set m. P c"
  unfolding forces_def by blast

lemma first_match_forces:
  assumes "forces P (rmatch r ic)" and "first_match r ic prev s = Some m"
  shows "\<exists>c\<in>set m. P c \<and> c \<in> set s"
proof -
  from assms(2) obtain rest where r: "(m, rest) \<in> set (rmatch r ic prev s)"
    using first_match_Some by blast
  then have "s = m @ rest" by (rule rmatch_append)
  moreover from forcesD [OF assms(1) r] obtain c where "c \<in> set m" "P c" by blast
  ultimately show ?thesis by auto
qed

lemma findall_from_forces:
  assumes "forces P (rmatch r ic)"
  shows "x \<in> set (findall_from r ic skip prev s) \<Longrightarrow> \<exists>c\<in>set x. P c \<and> c \<in> set s"
proof (induction s arbitrary: skip prev)
  case Nil
  then show ?case by simp
next
  case (Cons a s)
  show ?case
  proof (cases "0 < skip")
    case True
    with Cons show ?thesis by fastforce
  next
    case False
    show ?thesis
    proof (cases "first_match r ic prev (a # s)")
      case None
      with False Cons show ?thesis by fastforce
    next
      case (Some m)
      show ?thesis
      proof (cases "x = m \<and> m \<noteq> []")
        case True
        with first_match_forces [OF assms Some] show ?thesis by simp
      next
        case False
        with \<open>\<not> 0 < skip\<close> Some Cons.prems
        have "x \<in> set (findall_from r ic 0 (Some a) s) \<or> x \<in> set (findall_from r ic (length m - 1) (Some a) s)"
          by (auto split: if_splits)
        with Cons.IH show ?thesis by fastforce
      qed
    qed
  qed
qed

lemma findall_from_nonempty: "x \<in> set (findall_from r ic skip prev s) \<Longrightarrow> x \<noteq> []"
  by (induction s arbitrary: skip prev) (auto split: if_splits option.splits)

lemma search_from_forces:
  assumes "forces P (rmatch r ic)"
  shows "search_from r ic prev s = Some m \<Longrightarrow> \<exists>c\<in>set m. P c"
proof (induction s arbitrary: prev)
  case Nil
  then show ?case using first_match_forces [OF assms] by fastforce
next
  case (Cons a s)
  then show ?case using first_match_forces [OF assms] by (fastforce split: option.splits)
qed

lemma has_date_digit:
  "re_findall DATE_PATTERN ic b \<noteq> [] \<Longrightarrow> \<exists>c\<in>set b. isdigit c"
proof -
  assume "re_findall DATE_PATTERN ic b \<noteq> []"
  then obtain x where "x \<in> set (findall_from DATE_PATTERN ic 0 None b)"
    unfolding re_findall_def by (meson last_in_set)
  from findall_from_forces [OF forces_DATE_PATTERN this] show ?thesis by blast
qed

lemma phone_loop_nonempty:
  "set ps \<subseteq> set phone_patterns \<Longrightarrow> phone_loop ps text = Some p \<Longrightarrow> p \<noteq> []"
proof (induction ps)
  case Nil
  then show ?case by simp
next
  case (Cons q ps)
  show ?case
  proof (cases "re_search q False text")
    case None
    with Cons show ?thesis by simp
  next
    case (Some m)
    have "forces isdigit (rmatch q False)" using Cons.prems(1) by (simp add: forces_phone)
    from Some have "search_from q False None text = Some m" by (simp add: re_search_def)
    from search_from_forces [OF \<open>forces isdigit (rmatch q False)\<close> this]
    obtain c where "c \<in> set m" "isdigit c" by blast
    then have "strip m \<noteq> []" using strip_nonempty isdigit_not_space by blast
    with Some Cons.prems(2) show ?thesis by auto
  qed
qed

lemma truthy_phone: "truthy (extract_phone text) \<longleftrightarrow> extract_phone text \<noteq> None"
  using phone_loop_nonempty [of phone_patterns "text"]
  by (auto simp: truthy_def extract_phone_def split: option.splits)

lemma truthy_linkedin: "truthy (extract_linkedin text) \<longleftrightarrow> extract_linkedin text \<noteq> None"
  by (auto simp: truthy_def extract_linkedin_def split: option.splits)

lemma truthy_email:
  "extract_email text = Inr em \<Longrightarrow> truthy em \<longleftrightarrow> em \<noteq> None"
  using findall_from_nonempty [of _ email_re False 0 None "text"]
  by (auto simp: extract_email_def Let_def idx_def truthy_def re_findall_def
      split: option.splits if_splits)


section \<open>The section splitter as a replay of its flushes\<close>

lemma section_labels:
  "map fst SECTION_HEADERS = [''education'', ''experience'', ''skills'', ''projects'',
     ''certifications'', ''summary'', ''achievements'', ''languages'', ''publications'',
     ''references'']"
  by (simp add: SECTION_HEADERS_def)

lemma find_Some_in_set: "find P xs = Some x \<Longrightarrow> x \<in> set xs"
  by (induction xs) (auto split: if_splits)

lemma matched_section_label:
  assumes "matched_section x = Some sec"
  shows "sec \<in> set (map fst SECTION_HEADERS)"
proof -
  from assms obtain p where "find (\<lambda>(sec, pattern). re_match (heading_re pattern) True x \<noteq> None)
      SECTION_HEADERS = Some p" and "sec = fst p"
    by (auto simp: matched_section_def)
  then show ?thesis using find_Some_in_set by fastforce
qed

lemma matched_section_truthy: "truthy (matched_section x) \<longleftrightarrow> matched_section x \<noteq> None"
proof (cases "matched_section x")
  case None
  then show ?thesis by (simp add: truthy_def)
next
  case (Some sec)
  from matched_section_label [OF this] have "sec \<noteq> []"
    unfolding section_labels by auto
  with Some show ?thesis by (simp add: truthy_def)
qed

lemma matched_section_not_header: "matched_section x \<noteq> Some ''header''"
proof
  assume "matched_section x = Some ''header''"
  from matched_section_label [OF this] show False
    unfolding section_labels by simp
qed

lemma sections_step_cases:
  "sections_step st line =
     (case matched_section (strip line) of
        Some sec \<Rightarrow> \<lparr>sections = flush st, current = sec, buffer = []\<rparr>
      | None \<Rightarrow> st\<lparr>buffer := buffer st @ [line]\<rparr>)"
  using matched_section_truthy [of "strip line"]
  by (auto simp: sections_step_def Let_def split: option.splits)

lemma flush_foldl:
  "flush (foldl sections_step st lines) =
     foldl store (sections st) (run_log (current st) (buffer st) lines)"
proof (induction lines arbitrary: st)
  case Nil
  show ?case by (simp add: flush_def store_def)
next
  case (Cons l lines)
  show ?case
    by (simp add: Cons sections_step_cases [of st l] split: option.split)
      (simp add: flush_def store_def)
qed

lemma extract_sections_log:
  "extract_sections text = foldl store [] (run_log ''header'' [] (split_on nl text))"
  by (simp add: extract_sections_def flush_foldl)

lemma run_log_buffers:
  "concat (map snd (run_log cur buf lines)) =
     buf @ filter (\<lambda>l. matched_section (strip l) = None) lines"
  by (induction lines arbitrary: cur buf) (auto split: option.splits)

lemma map_of_store: "map_of (store d e) = (map_of d)(fst e \<mapsto> strip (join [nl] (snd e)))"
  by (simp add: store_def update_conv')

lemma map_of_foldl_store:
  "map_of (foldl store d es) =
     map_of d ++ map_of (rev (map (\<lambda>e. (fst e, strip (join [nl] (snd e)))) es))"
proof (induction es arbitrary: d)
  case Nil
  show ?case by simp
next
  case (Cons e es)
  have "map_of (foldl store d (e # es)) = map_of (foldl store (store d e) es)"
    by simp
  also have "\<dots> = map_of (store d e)
      ++ map_of (rev (map (\<lambda>e. (fst e, strip (join [nl] (snd e)))) es))"
    by (rule Cons)
  also have "map_of (store d e) = map_of d ++ [fst e \<mapsto> strip (join [nl] (snd e))]"
    by (simp add: map_of_store)
  finally show ?case by (simp del: map_add_upd)
qed


section \<open>What the sections dictionary holds\<close>

lemma is_heading_None: "\<not> is_heading l \<longleftrightarrow> matched_section (strip l) = None"
  by (simp add: is_heading_def)

lemma run_log_append:
  "matched_section (strip h) = Some L \<Longrightarrow>
     \<exists>pre. run_log cur buf (xs @ h # ys) = pre @ run_log L [] ys"
proof (induction xs arbitrary: cur buf)
  case Nil
  then show ?case by (intro exI [of _ "[(cur, buf)]"]) simp
next
  case (Cons x xs)
  show ?case
  proof (cases "matched_section (strip x)")
    case None
    with Cons.IH [OF Cons.prems, of cur "buf @ [x]"] show ?thesis by simp
  next
    case (Some sec)
    from Cons.IH [OF Cons.prems, of sec "[]"] obtain pre
      where "run_log sec [] (xs @ h # ys) = pre @ run_log L [] ys" by blast
    with Some show ?thesis by (intro exI [of _ "(cur, buf) # pre"]) simp
  qed
qed

lemma run_log_head:
  "\<exists>rest. run_log cur buf ls = (cur, buf @ takeWhile (\<lambda>l. \<not> is_heading l) ls) # rest
     \<and> (\<forall>e\<in>set rest. \<exists>l\<in>set ls. matched_section (strip l) = Some (fst e))"
proof (induction ls arbitrary: cur buf)
  case Nil
  show ?case by simp
next
  case (Cons x ls)
  show ?case
  proof (cases "matched_section (strip x)")
    case None
    from Cons.IH [of cur "buf @ [x]"] None show ?thesis
      by (auto simp: is_heading_def)
  next
    case (Some sec)
    from Cons.IH [of sec "[]"] obtain rest
      where rest: "run_log sec [] ls = (sec, takeWhile (\<lambda>l. \<not> is_heading l) ls) # rest"
        "\<forall>e\<in>set rest. \<exists>l\<in>set ls. matched_section (strip l) = Some (fst e)"
      by auto
    show ?thesis
      using Some rest by (intro exI [of _ "run_log sec [] ls"]) (auto simp: is_heading_def)
  qed
qed

lemma map_of_rev_last:
  assumes "L \<notin> fst ` set rest"
  shows "map_of (rev (map (\<lambda>e. (fst e, g (snd e))) (pre @ (L, b) # rest))) L = Some (g b)"
proof -
  have "map_of (rev (map (\<lambda>e. (fst e, g (snd e))) rest)) L = None"
    using assms by (force simp: map_of_eq_None_iff)
  then show ?thesis by (simp add: map_add_def)
qed

lemma map_of_extract_sections:
  "map_of (extract_sections text)
     = map_of (rev (map (\<lambda>e. (fst e, strip (join [nl] (snd e))))
                  (run_log ''header'' [] (split_on nl text))))"
  using map_of_foldl_store [of "[]"] by (simp add: extract_sections_log)

lemma lookup_last_flush:
  assumes "split_on nl text = xs @ h # c"
    and "matched_section (strip h) = Some L"
    and "\<forall>l\<in>set c. matched_section (strip l) \<noteq> Some L"
  shows "map_of (extract_sections text) L
      = Some (strip (join [nl] (takeWhile (\<lambda>l. \<not> is_heading l) c)))"
proof -
  obtain pre where pre: "run_log ''header'' [] (xs @ h # c) = pre @ run_log L [] c"
    using run_log_append [OF assms(2)] by blast
  obtain rest where rest: "run_log L [] c = (L, [] @ takeWhile (\<lambda>l. \<not> is_heading l) c) # rest"
    and keys: "\<forall>e\<in>set rest. \<exists>l\<in>set c. matched_section (strip l) = Some (fst e)"
    using run_log_head [of L "[]" c] by blast
  have "L \<notin> fst ` set rest"
    using keys assms(3) by force
  from map_of_rev_last [OF this, of "\<lambda>b. strip (join [nl] b)" pre
      "takeWhile (\<lambda>l. \<not> is_heading l) c"]
  show ?thesis
    by (simp only: map_of_extract_sections assms(1) pre rest append_Nil)
qed

lemma lookup_header:
  "map_of (extract_sections text) ''header''
     = Some (strip (join [nl] (takeWhile (\<lambda>l. \<not> is_heading l) (split_on nl text))))"
proof -
  obtain rest where rest: "run_log ''header'' [] (split_on nl text)
        = (''header'', [] @ takeWhile (\<lambda>l. \<not> is_heading l) (split_on nl text)) # rest"
    and keys: "\<forall>e\<in>set rest. \<exists>l\<in>set (split_on nl text). matched_section (strip l) = Some (fst e)"
    using run_log_head [of "''header''" "[]" "split_on nl text"] by blast
  have "''header'' \<notin> fst ` set rest"
    using keys matched_section_not_header by force
  from map_of_rev_last [OF this, of "\<lambda>b. strip (join [nl] b)" "[]"
      "takeWhile (\<lambda>l. \<not> is_heading l) (split_on nl text)"]
  show ?thesis
    by (simp only: map_of_extract_sections rest append_Nil)
qed

lemma split_acc_no_sep: "d \<notin> set s \<Longrightarrow> split_acc d acc s = [rev acc @ s]"
  by (induction s arbitrary: acc) auto

lemma split_on_no_sep: "d \<notin> set s \<Longrightarrow> split_on d s = [s]"
  by (simp add: split_on_def split_acc_no_sep)

lemma strip_id: "s \<noteq> [] \<Longrightarrow> \<not> isspace (hd s) \<Longrightarrow> \<not> isspace (last s) \<Longrightarrow> strip s = s"
proof -
  assume s: "s \<noteq> []" "\<not> isspace (hd s)" "\<not> isspace (last s)"
  then have a: "dropWhile isspace s = s" by (cases s) auto
  from s have "dropWhile isspace (rev s) = rev s" by (cases "rev s") (auto simp: hd_rev)
  with a show ?thesis by (simp add: strip_def)
qed

lemma aa_no_heading: "matched_section (CHR ''a'' # CHR ''a'' # xs) = None"
  by code_simp

lemma not_space_a: "\<not> isspace CHR ''a''"
  by code_simp


section \<open>The patterns of findall and split match no empty string\<close>

lemma email_re_nonempty: "([], rest) \<notin> set (rmatch email_re ic prev s)"
  by (rule forces_nonempty [OF forces_email])

lemma DATE_PATTERN_nonempty: "([], rest) \<notin> set (rmatch DATE_PATTERN ic prev s)"
  by (rule forces_nonempty [OF forces_DATE_PATTERN])

lemma blank_gap_re_nonempty: "([], rest) \<notin> set (rmatch blank_gap_re ic prev s)"
  by (rule forces_nonempty [OF forces_blank_gap])


section \<open>The split at blank gaps\<close>

lemma two_newlines:
  assumes f: "\<And>p s. f p s = (case s of [] \<Rightarrow> [] | c # cs \<Rightarrow> if c = nl then [([nl], cs)] else [])"
  shows "rep_m f 2 2 p s = (if take 2 s = [nl, nl] then [([nl, nl], drop 2 s)] else [])"
proof (cases s)
  case Nil
  then show ?thesis by (simp add: numeral_2_eq_2 then_m_def f)
next
  case a: (Cons a s')
  show ?thesis
  proof (cases s')
    case Nil
    with a show ?thesis by (simp add: numeral_2_eq_2 then_m_def f)
  next
    case (Cons b s'')
    with a show ?thesis by (simp add: numeral_2_eq_2 then_m_def nxt_def f)
  qed
qed

lemma star_newlines:
  assumes f: "\<And>p s. f p s = (case s of [] \<Rightarrow> [] | c # cs \<Rightarrow> if c = nl then [([nl], cs)] else [])"
  shows "length (takeWhile (\<lambda>x. x = nl) s) \<le> length fuel \<Longrightarrow>
     \<exists>more. star_m f fuel p s
       = (takeWhile (\<lambda>x. x = nl) s, dropWhile (\<lambda>x. x = nl) s) # more"
proof (induction fuel arbitrary: s p)
  case Nil
  then have t: "takeWhile (\<lambda>x. x = nl) s = []" by simp
  then have "dropWhile (\<lambda>x. x = nl) s = s" by (cases s) (auto split: if_splits)
  with t show ?case by simp
next
  case (Cons x fuel)
  have unfold: "star_m f (x # fuel) p s
      = then_m (filter (\<lambda>(m, r). m \<noteq> []) (f p s)) (star_m f fuel) p @ [([], s)]"
    by (rule star_m.simps(2))
  show ?case
  proof (cases "\<exists>cs. s = nl # cs")
    case False
    then have fs: "f p s = []" unfolding f [of p s] by (cases s) auto
    from False have "takeWhile (\<lambda>x. x = nl) s = []" "dropWhile (\<lambda>x. x = nl) s = s"
      by (cases s; auto)+
    then show ?thesis by (simp add: unfold fs then_m_def)
  next
    case True
    then obtain cs where s: "s = nl # cs" by blast
    have fs: "f p (nl # cs) = [([nl], cs)]" unfolding f [of p "nl # cs"] by simp
    from Cons.prems s have "length (takeWhile (\<lambda>x. x = nl) cs) \<le> length fuel" by simp
    from Cons.IH [OF this, of "Some nl"] obtain more
      where more: "star_m f fuel (Some nl) cs
          = (takeWhile (\<lambda>x. x = nl) cs, dropWhile (\<lambda>x. x = nl) cs) # more"
      by blast
    show ?thesis unfolding s by (simp add: fs then_m_def nxt_def more)
  qed
qed

lemma first_match_blank_gap:
  "first_match blank_gap_re False p s =
     (if take 2 s = [nl, nl] then Some (takeWhile (\<lambda>x. x = nl) s) else None)"
proof -
  define f where "f = rmatch (Lit [nl]) False"
  have f: "f p s = (case s of [] \<Rightarrow> [] | c # cs \<Rightarrow> if c = nl then [([nl], cs)] else [])" for p s
    by (cases s) (auto simp: f_def)
  have m: "rmatch blank_gap_re False p s = then_m (rep_m f 2 2 p s) (\<lambda>q t. star_m f t q t) p"
    for p s
    by (simp add: blank_gap_re_def AtLeast_def f_def then_m_def)
  show ?thesis
  proof (cases "take 2 s = [nl, nl]")
    case False
    then show ?thesis
      by (simp add: first_match_def m two_newlines [of f, OF f] then_m_def)
  next
    case True
    then obtain rest where s: "s = nl # nl # rest"
      by (cases s; cases "tl s") auto
    have "length (takeWhile (\<lambda>x. x = nl) rest) \<le> length rest"
      by (rule length_takeWhile_le)
    from star_newlines [of f, OF f this, of "Some nl"] obtain more
      where "star_m f rest (Some nl) rest
          = (takeWhile (\<lambda>x. x = nl) rest, dropWhile (\<lambda>x. x = nl) rest) # more"
      by blast
    then show ?thesis
      by (simp add: first_match_def m two_newlines [of f, OF f] then_m_def s nxt_def)
  qed
qed

lemma split_from_blank_gap_prev:
  "split_from blank_gap_re False k p acc s = split_from blank_gap_re False k p' acc s"
  by (cases s) (simp_all add: first_match_blank_gap)

lemma split_from_skip:
  "k \<le> length s \<Longrightarrow>
     split_from blank_gap_re False k p acc s = split_from blank_gap_re False 0 p acc (drop k s)"
proof (induction s arbitrary: k p)
  case Nil
  then show ?case by simp
next
  case (Cons c cs)
  show ?case
  proof (cases k)
    case 0
    then show ?thesis by simp
  next
    case (Suc j)
    with Cons.prems have "j \<le> length cs" by simp
    from Cons.IH [OF this, of "Some c"] Suc show ?thesis
      using split_from_blank_gap_prev [of 0 "Some c" acc "drop j cs" p] by simp
  qed
qed

lemma split_from_blocks:
  "split_from blank_gap_re False 0 p acc s = blocks_from acc s"
proof (induction acc s arbitrary: p rule: blocks_from.induct)
  case (1 acc)
  show ?case by simp
next
  case (2 acc c cs)
  show ?case
  proof (cases "c = nl \<and> take 1 cs = [nl]")
    case False
    then have "take 2 (c # cs) \<noteq> [nl, nl]" by (cases cs) auto
    then have fm: "first_match blank_gap_re False p (c # cs) = None"
      by (simp add: first_match_blank_gap)
    have "split_from blank_gap_re False 0 p acc (c # cs)
        = split_from blank_gap_re False 0 (Some c) (c # acc) cs"
      by (simp add: fm)
    also have "\<dots> = blocks_from (c # acc) cs"
      using False by (intro "2.IH"(2)) simp
    also have "\<dots> = blocks_from acc (c # cs)"
      using False by auto
    finally show ?thesis .
  next
    case True
    then obtain rest where cs: "cs = nl # rest" and c: "c = nl"
      by (cases cs) (auto split: if_splits)
    let ?run = "takeWhile (\<lambda>x. x = nl) rest"
    have fm: "first_match blank_gap_re False p (c # cs) = Some (nl # nl # ?run)"
      by (simp add: first_match_blank_gap c cs)
    have "split_from blank_gap_re False 0 p acc (c # cs)
        = rev acc # split_from blank_gap_re False (Suc (length ?run)) (Some c) [] cs"
      by (simp add: fm)
    also have "split_from blank_gap_re False (Suc (length ?run)) (Some c) [] cs
        = split_from blank_gap_re False 0 (Some c) [] (drop (Suc (length ?run)) cs)"
      by (rule split_from_skip) (simp add: cs length_takeWhile_le)
    also have "drop (Suc (length ?run)) cs = dropWhile (\<lambda>x. x = nl) cs"
      by (simp add: cs dropWhile_eq_drop)
    also have "split_from blank_gap_re False 0 (Some c) [] (dropWhile (\<lambda>x. x = nl) cs)
        = blocks_from [] (dropWhile (\<lambda>x. x = nl) cs)"
      using True by (intro "2.IH"(1)) simp_all
    also have "rev acc # blocks_from [] (dropWhile (\<lambda>x. x = nl) cs) = blocks_from acc (c # cs)"
      using True by simp
    finally show ?thesis .
  qed
qed

lemma re_split_blank_gap: "re_split blank_gap_re False text = blocks text"
  by (simp add: re_split_def blocks_def split_from_blocks)


section \<open>A dated block has a line\<close>

lemma has_date_lines:
  assumes "has_date b"
  shows "strip b \<noteq> []" and "nonempty_lines b \<noteq> []"
proof -
  from assms obtain c where c: "c \<in> set b" "isdigit c"
    using has_date_digit by (auto simp: has_date_def)
  then have "\<not> isspace c" by (simp add: isdigit_not_space)
  with c show "strip b \<noteq> []" and "nonempty_lines b \<noteq> []"
    using strip_nonempty nonempty_lines_nonempty by blast+
qed

lemma exp_block_spec:
  "exp_block b = Inr (if has_date b then Some (experience_of_block b) else None)"
proof (cases "has_date b")
  case True
  from has_date_lines [OF True] obtain l ls where l: "nonempty_lines b = l # ls" "strip b \<noteq> []"
    by (cases "nonempty_lines b") auto
  with True show ?thesis
    by (cases ls) (simp_all add: exp_block_def experience_of_block_def has_date_def idx_def Let_def)
next
  case False
  then show ?thesis
    by (simp add: exp_block_def has_date_def Let_def)
qed

lemma exp_loop_spec:
  "exp_loop bs acc = Inr (acc @ map experience_of_block (filter has_date bs))"
  by (induction bs arbitrary: acc) (simp_all add: exp_block_spec)


section \<open>Project blocks\<close>

lemma proj_block_spec:
  "proj_block b = Inr (if nonempty_lines b \<noteq> [] then Some (project_of_block b) else None)"
  by (cases "nonempty_lines b")
     (simp_all add: proj_block_def project_of_block_def full_description_def idx_def Let_def)

lemma proj_loop_spec:
  "proj_loop bs acc
     = Inr (acc @ map project_of_block (filter (\<lambda>b. nonempty_lines b \<noteq> []) bs))"
  by (induction bs arbitrary: acc) (simp_all add: proj_block_spec)

lemma extract_projects_spec:
  "extract_projects text
     = Inr (take 5 (map project_of_block (filter (\<lambda>b. nonempty_lines b \<noteq> []) (blocks text))))"
  by (simp add: extract_projects_def proj_loop_spec re_split_blank_gap)

lemma first_match_word_re_fail:
  assumes "w \<noteq> []" and "\<not> item_match ic (One (hd w)) c"
  shows "first_match (word_re w) ic prev (c # s) = None"
proof -
  obtain a w' where w: "w = a # w'" using assms(1) by (cases w) auto
  have "rmatch (Lit w) ic p (c # s) = []" for p
    using assms(2) by (simp add: w del: item_match.simps)
  then have "rmatch (Seq (Lit w) Wb) ic p (c # s) = []" for p
    by (simp add: then_m_def)
  then have "rmatch (word_re w) ic prev (c # s) = []"
    by (simp add: word_re_def then_m_def)
  then show ?thesis by (simp add: first_match_def)
qed

lemma search_from_skip:
  assumes "w \<noteq> []" and "\<not> item_match ic (One (hd w)) c"
  shows "search_from (word_re w) ic prev (replicate n c @ s)
     = search_from (word_re w) ic (if n = 0 then prev else Some c) s"
proof (induction n arbitrary: prev)
  case 0
  show ?case by simp
next
  case (Suc n)
  show ?case
    by (simp add: first_match_word_re_fail [OF assms] Suc)
qed

lemma skills_not_dash:
  "list_all (\<lambda>w. w \<noteq> [] \<and> \<not> item_match True (One (hd w)) CHR ''-'') ALL_SKILLS"
  by code_simp

lemma techs_past_cut: "techs_of (replicate 300 CHR ''-'' @ '' python'') = [''Python'']"
proof -
  have "filter (\<lambda>skill. re_search (word_re skill) True (replicate 300 CHR ''-'' @ '' python'') \<noteq> None)
      ALL_SKILLS
    = filter (\<lambda>skill. search_from (word_re skill) True (Some CHR ''-'') '' python'' \<noteq> None)
      ALL_SKILLS"
  proof (rule filter_cong [OF refl])
    fix w
    assume "w \<in> set ALL_SKILLS"
    with skills_not_dash have "w \<noteq> []" "\<not> item_match True (One (hd w)) CHR ''-''"
      by (auto simp: list_all_iff)
    from search_from_skip [OF this, of None 300 "'' python''"]
    show "(re_search (word_re w) True (replicate 300 CHR ''-'' @ '' python'') \<noteq> None)
       = (search_from (word_re w) True (Some CHR ''-'') '' python'' \<noteq> None)"
      by (simp add: re_search_def)
  qed
  also have "\<dots> = [''python'']"
    by code_simp
  finally have "techs_of (replicate 300 CHR ''-'' @ '' python'') = map capitalize [''python'']"
    by (simp only: techs_of_def)
  also have "\<dots> = [''Python'']"
    by code_simp
  finally show ?thesis .
qed

lemma long_block_split: "blocks long_project = [long_project]"
  by code_simp

lemma long_block_lines:
  "nonempty_lines long_project = [''Tool'', replicate 300 CHR ''-'' @ '' python'']"
  by code_simp


section \<open>The orchestrator, field by field\<close>

lemma calculate_score_cong:
  "contact p = contact q \<Longrightarrow> summary p = summary q \<Longrightarrow> skills p = skills q \<Longrightarrow>
   experience p = experience q \<Longrightarrow> education p = education q \<Longrightarrow> projects p = projects q \<Longrightarrow>
   calculate_score p = calculate_score q"
  by (simp only: calculate_score_def)

lemma add_score_sel:
  "meta (add_score p) = meta p" "contact (add_score p) = contact p"
  "summary (add_score p) = summary p" "skills (add_score p) = skills p"
  "experience (add_score p) = experience p" "education (add_score p) = education p"
  "projects (add_score p) = projects p" "certifications (add_score p) = certifications p"
  "languages (add_score p) = languages p" "achievements (add_score p) = achievements p"
  "raw_sections (add_score p) = raw_sections p"
  "score (add_score p) = calculate_score p"
  "skill_count (add_score p) = skills_flat (skills p)"
  by (simp_all add: add_score_def)

lemma calculate_score_add_score: "calculate_score (add_score p) = calculate_score p"
  by (rule calculate_score_cong) (simp_all add: add_score_sel)

lemma parse_text_Inr:
  assumes "extract_name nlp text = Inr nm" and "extract_email text = Inr em"
  and "(if dict_get (extract_sections text) ''experience'' [] \<noteq> []
         then extract_experience (dict_get (extract_sections text) ''experience'' [])
         else Inr []) = Inr ex"
  and "(if dict_get (extract_sections text) ''education'' [] \<noteq> []
         then extract_education (dict_get (extract_sections text) ''education'' [])
         else extract_education text) = Inr ed"
  and "(if dict_get (extract_sections text) ''projects'' [] \<noteq> []
         then extract_projects (dict_get (extract_sections text) ''projects'' [])
         else Inr []) = Inr pr"
  shows "\<exists>r. parse_text nlp now text = Inr r
     \<and> name (contact r) = nm \<and> email (contact r) = em
     \<and> phone (contact r) = extract_phone text
     \<and> linkedin (contact r) = extract_linkedin text
     \<and> github (contact r) = extract_github text
     \<and> meta r = \<lparr>parsed_at = now, word_count = length (split_ws text)\<rparr>
     \<and> summary r = dict_get (extract_sections text) ''summary'' []
     \<and> skills r = extract_skills (dict_get (extract_sections text) ''skills'' [] @ [nl] @ text)
     \<and> experience r = ex \<and> education r = ed \<and> projects r = pr
     \<and> certifications r = dict_get (extract_sections text) ''certifications'' []
     \<and> languages r = dict_get (extract_sections text) ''languages'' []
     \<and> achievements r = dict_get (extract_sections text) ''achievements'' []
     \<and> raw_sections r = map (\<lambda>(k, v). (k, take 500 v)) (extract_sections text)
     \<and> score r = calculate_score r
     \<and> skill_count r = skills_flat (skills r)"
  unfolding parse_text_def Let_def assms bindE_def sum.case
  by (simp add: add_score_sel calculate_score_add_score)


lemma parse_text_fields:
  "\<exists>r. parse_text nlp now text = Inr r
     \<and> extract_name nlp text = Inr (name (contact r))
     \<and> extract_email text = Inr (email (contact r))
     \<and> phone (contact r) = extract_phone text
     \<and> linkedin (contact r) = extract_linkedin text
     \<and> github (contact r) = extract_github text
     \<and> meta r = \<lparr>parsed_at = now, word_count = length (split_ws text)\<rparr>
     \<and> summary r = dict_get (extract_sections text) ''summary'' []
     \<and> skills r = extract_skills (dict_get (extract_sections text) ''skills'' [] @ [nl] @ text)
     \<and> (if dict_get (extract_sections text) ''experience'' [] \<noteq> []
         then extract_experience (dict_get (extract_sections text) ''experience'' [])
         else Inr []) = Inr (experience r)
     \<and> (if dict_get (extract_sections text) ''education'' [] \<noteq> []
         then extract_education (dict_get (extract_sections text) ''education'' [])
         else extract_education text) = Inr (education r)
     \<and> (if dict_get (extract_sections text) ''projects'' [] \<noteq> []
         then extract_projects (dict_get (extract_sections text) ''projects'' [])
         else Inr []) = Inr (projects r)
     \<and> certifications r = dict_get (extract_sections text) ''certifications'' []
     \<and> languages r = dict_get (extract_sections text) ''languages'' []
     \<and> achievements r = dict_get (extract_sections text) ''achievements'' []
     \<and> raw_sections r = map (\<lambda>(k, v). (k, take 500 v)) (extract_sections text)
     \<and> score r = calculate_score r
     \<and> skill_count r = skills_flat (skills r)"
proof -
  obtain nm where nm: "extract_name nlp text = Inr nm"
    using extract_name_total by blast
  obtain em where em: "extract_email text = Inr em"
    using extract_email_total by blast
  have "\<exists>ex. (if dict_get (extract_sections text) ''experience'' [] \<noteq> []
         then extract_experience (dict_get (extract_sections text) ''experience'' [])
         else Inr []) = Inr ex"
    by (simp add: extract_experience_total)
  then obtain ex where ex: "(if dict_get (extract_sections text) ''experience'' [] \<noteq> []
         then extract_experience (dict_get (extract_sections text) ''experience'' [])
         else Inr []) = Inr ex" ..
  have "\<exists>ed. (if dict_get (extract_sections text) ''education'' [] \<noteq> []
         then extract_education (dict_get (extract_sections text) ''education'' [])
         else extract_education text) = Inr ed"
    by (simp add: extract_education_total)
  then obtain ed where ed: "(if dict_get (extract_sections text) ''education'' [] \<noteq> []
         then extract_education (dict_get (extract_sections text) ''education'' [])
         else extract_education text) = Inr ed" ..
  have "\<exists>pr. (if dict_get (extract_sections text) ''projects'' [] \<noteq> []
         then extract_projects (dict_get (extract_sections text) ''projects'' [])
         else Inr []) = Inr pr"
    by (simp add: extract_projects_total)
  then obtain pr where pr: "(if dict_get (extract_sections text) ''projects'' [] \<noteq> []
         then extract_projects (dict_get (extract_sections text) ''projects'' [])
         else Inr []) = Inr pr" ..
  from parse_text_Inr [OF nm em ex ed pr, of now] show ?thesis
    unfolding nm em ex ed pr by blast
qed

lemma add_score_meta: "add_score (p\<lparr>meta := m\<rparr>) = (add_score p)\<lparr>meta := m\<rparr>"
proof -
  have "calculate_score (p\<lparr>meta := m\<rparr>) = calculate_score p"
    by (rule calculate_score_cong) simp_all
  then show ?thesis by (simp add: add_score_def)
qed

section \<open>The claims\<close>

text \<open>
  Claim C1. For every input text, \<open>parse_text\<close> returns a record and raises nothing, and
  the score of the record is an integer between 0 and 100. Every loop of the model is a
  structural recursion, so the run ends; the error value \<open>Inl\<close> stands for a raised
  exception, and the theorem excludes it.
\<close>
theorem parse_text_total_score_range:
  "\<exists>r. parse_text nlp now text = Inr r \<and> 0 \<le> score r \<and> score r \<le> 100"
proof -
  obtain r where "parse_text nlp now text = Inr r" "score r = calculate_score r"
    using parse_text_fields by blast
  then show ?thesis
    using score_sum_bounds [of r] by (simp add: calculate_score_sum)
qed

text \<open>An instance of C1, on a one-line text.\<close>

theorem parse_text_total_score_range_witness:
  "\<exists>r. parse_text None ''2026-11-03T10:00:00'' ''Jane Doe'' = Inr r \<and> 0 \<le> score r \<and> score r \<le> 100"
  by (rule parse_text_total_score_range)

text \<open>
  Claim C3. The score is the rounded sum, capped at 100, of 8 for an email, 6 for a phone
  number, 6 for a LinkedIn link, 10 for a summary section that is not empty, two points a
  matched skill up to 25, eight an experience record up to 25, seven an education record
  up to 15 and two a project record up to 5. A contact field is counted when it is not
  \<open>None\<close>: an extracted email, phone number or link is never the empty string.
\<close>
theorem score_formula:
  "\<exists>r. parse_text nlp now text = Inr r \<and>
     score r = py_round (min 100 (of_int
       ((if email (contact r) \<noteq> None then 8 else 0)
        + (if phone (contact r) \<noteq> None then 6 else 0)
        + (if linkedin (contact r) \<noteq> None then 6 else 0)
        + (if summary r \<noteq> [] then 10 else 0)
        + min 25 (2 * int (skills_flat (skills r)))
        + min 25 (8 * int (length (experience r)))
        + min 15 (7 * int (length (education r)))
        + min 5 (2 * int (length (projects r))))))"
proof -
  obtain r where r: "parse_text nlp now text = Inr r"
    and em: "extract_email text = Inr (email (contact r))"
    and ph: "phone (contact r) = extract_phone text"
    and li: "linkedin (contact r) = extract_linkedin text"
    and sc: "score r = calculate_score r"
    using parse_text_fields by blast
  have t: "truthy (email (contact r)) \<longleftrightarrow> email (contact r) \<noteq> None"
    "truthy (phone (contact r)) \<longleftrightarrow> phone (contact r) \<noteq> None"
    "truthy (linkedin (contact r)) \<longleftrightarrow> linkedin (contact r) \<noteq> None"
    using truthy_email [OF em] by (simp_all add: ph li truthy_phone truthy_linkedin)
  have "score r = py_round (of_int (min 100 (score_sum r)))"
    by (simp only: sc calculate_score_sum py_round_of_int)
  also have "of_int (min 100 (score_sum r)) = min 100 (real_of_int (score_sum r))"
    by (simp add: of_int_min)
  finally show ?thesis
    using r unfolding score_sum_def t by blast
qed

text \<open>An instance of C3, on a one-line text.\<close>

theorem score_formula_witness:
  "\<exists>r. parse_text None ''2026-11-03T10:00:00'' ''Jane Doe'' = Inr r \<and>
     score r = py_round (min 100 (of_int
       ((if email (contact r) \<noteq> None then 8 else 0)
        + (if phone (contact r) \<noteq> None then 6 else 0)
        + (if linkedin (contact r) \<noteq> None then 6 else 0)
        + (if summary r \<noteq> [] then 10 else 0)
        + min 25 (2 * int (skills_flat (skills r)))
        + min 25 (8 * int (length (experience r)))
        + min 15 (7 * int (length (education r)))
        + min 5 (2 * int (length (projects r))))))"
  by (rule score_formula)

text \<open>
  Claim C5. The timestamp is an input of the model, and it reaches the result in the field
  \<open>parsed_at\<close> only: the result of a call at another time \<open>now'\<close> on the same text is
  the same record with \<open>parsed_at\<close> replaced.
\<close>
theorem parse_text_deterministic:
  "\<exists>r. parse_text nlp now text = Inr r \<and>
       parse_text nlp now' text = Inr (r\<lparr>meta := (meta r)\<lparr>parsed_at := now'\<rparr>\<rparr>)"
proof -
  obtain nm where nm: "extract_name nlp text = Inr nm"
    using extract_name_total by blast
  obtain em where em: "extract_email text = Inr em"
    using extract_email_total by blast
  have "\<exists>ex. (if dict_get (extract_sections text) ''experience'' [] \<noteq> []
         then extract_experience (dict_get (extract_sections text) ''experience'' [])
         else Inr []) = Inr ex"
    by (simp add: extract_experience_total)
  then obtain ex where ex: "(if dict_get (extract_sections text) ''experience'' [] \<noteq> []
         then extract_experience (dict_get (extract_sections text) ''experience'' [])
         else Inr []) = Inr ex" ..
  have "\<exists>ed. (if dict_get (extract_sections text) ''education'' [] \<noteq> []
         then extract_education (dict_get (extract_sections text) ''education'' [])
         else extract_education text) = Inr ed"
    by (simp add: extract_education_total)
  then obtain ed where ed: "(if dict_get (extract_sections text) ''education'' [] \<noteq> []
         then extract_education (dict_get (extract_sections text) ''education'' [])
         else extract_education text) = Inr ed" ..
  have "\<exists>pr. (if dict_get (extract_sections text) ''projects'' [] \<noteq> []
         then extract_projects (dict_get (extract_sections text) ''projects'' [])
         else Inr []) = Inr pr"
    by (simp add: extract_projects_total)
  then obtain pr where pr: "(if dict_get (extract_sections text) ''projects'' [] \<noteq> []
         then extract_projects (dict_get (extract_sections text) ''projects'' [])
         else Inr []) = Inr pr" ..
  show ?thesis
    unfolding parse_text_def Let_def nm em ex ed pr bindE_def sum.case
    by (simp add: add_score_meta [symmetric] add_score_sel)
qed

text \<open>An instance of C5, for two timestamps.\<close>

theorem parse_text_deterministic_witness:
  "\<exists>r. parse_text None ''2026-11-03T10:00:00'' ''Jane Doe'' = Inr r \<and>
       parse_text None ''2026-11-04T09:30:00'' ''Jane Doe''
         = Inr (r\<lparr>meta := (meta r)\<lparr>parsed_at := ''2026-11-04T09:30:00''\<rparr>\<rparr>)"
  by (rule parse_text_deterministic)

text \<open>
  Claim C4. When the education section is absent or empty, the education records are
  those of the education extractor on the whole text; when the experience section, or
  the projects section, is absent or empty, the list of its records is empty.
\<close>
theorem fallback_policy:
  "\<exists>r. parse_text nlp now text = Inr r
     \<and> (dict_get (extract_sections text) ''education'' [] = []
          \<longrightarrow> extract_education text = Inr (education r))
     \<and> (dict_get (extract_sections text) ''experience'' [] = [] \<longrightarrow> experience r = [])
     \<and> (dict_get (extract_sections text) ''projects'' [] = [] \<longrightarrow> projects r = [])"
proof -
  obtain r where r: "parse_text nlp now text = Inr r"
    and ex: "(if dict_get (extract_sections text) ''experience'' [] \<noteq> []
         then extract_experience (dict_get (extract_sections text) ''experience'' [])
         else Inr []) = Inr (experience r)"
    and ed: "(if dict_get (extract_sections text) ''education'' [] \<noteq> []
         then extract_education (dict_get (extract_sections text) ''education'' [])
         else extract_education text) = Inr (education r)"
    and pr: "(if dict_get (extract_sections text) ''projects'' [] \<noteq> []
         then extract_projects (dict_get (extract_sections text) ''projects'' [])
         else Inr []) = Inr (projects r)"
    using parse_text_fields by blast
  show ?thesis
    using r ex ed pr by (intro exI [of _ r]) (auto split: if_splits)
qed

text \<open>
  An instance of C4: a text without headings, whose only section is the header. The degree
  line is found by the scan of the whole text, and the dated line yields no experience.
\<close>

theorem fallback_policy_witness:
  "dict_get (extract_sections ''B.Tech 2020'') ''education'' [] = []
   \<and> dict_get (extract_sections ''B.Tech 2020'') ''experience'' [] = []
   \<and> dict_get (extract_sections ''B.Tech 2020'') ''projects'' [] = []
   \<and> (\<exists>r. parse_text None ''2026-11-03T10:00:00'' ''B.Tech 2020'' = Inr r
         \<and> extract_education ''B.Tech 2020'' = Inr (education r)
         \<and> experience r = [] \<and> projects r = [])"
proof -
  have h: "extract_sections ''B.Tech 2020'' = [(''header'', ''B.Tech 2020'')]"
    by code_simp
  show ?thesis
    using fallback_policy [of None "''2026-11-03T10:00:00''" "''B.Tech 2020''"]
    by (simp add: h dict_get_def)
qed

text \<open>
  Claim C9. When two heading lines match the pattern of the same label, the dictionary
  keeps under that label the block that follows the later one (up to the next heading,
  joined and trimmed): the value is a function of the lines after the later heading
  alone, so what had accumulated under the label before is overwritten.
\<close>

theorem repeated_label_overwrites:
  assumes "split_on nl text = a @ [h1] @ b @ [h2] @ c"
    and "matched_section (strip h1) = Some L"
    and "matched_section (strip h2) = Some L"
    and "list_all (\<lambda>l. matched_section (strip l) \<noteq> Some L) c"
  shows "map_of (extract_sections text) L
      = Some (strip (join [nl] (takeWhile (\<lambda>l. \<not> is_heading l) c)))"
proof (rule lookup_last_flush [OF _ assms(3)])
  show "split_on nl text = (a @ [h1] @ b) @ h2 # c" using assms(1) by simp
  show "\<forall>l\<in>set c. matched_section (strip l) \<noteq> Some L" using assms(4) by (simp add: list_all_iff)
qed

text \<open>
  An instance of C9: two \<open>skills\<close> headings; the line after the first one is lost.
\<close>

theorem repeated_label_overwrites_witness:
  "split_on nl ''SKILLS\<newline>python\<newline>Skills:\<newline>java\<newline>EDUCATION\<newline>mit''
      = [] @ [''SKILLS''] @ [''python''] @ [''Skills:''] @ [''java'', ''EDUCATION'', ''mit'']
   \<and> matched_section (strip ''SKILLS'') = Some ''skills''
   \<and> matched_section (strip ''Skills:'') = Some ''skills''
   \<and> list_all (\<lambda>l. matched_section (strip l) \<noteq> Some ''skills'') [''java'', ''EDUCATION'', ''mit'']
   \<and> map_of (extract_sections ''SKILLS\<newline>python\<newline>Skills:\<newline>java\<newline>EDUCATION\<newline>mit'')
        ''skills'' = Some ''java''"
proof -
  have h1: "split_on nl ''SKILLS\<newline>python\<newline>Skills:\<newline>java\<newline>EDUCATION\<newline>mit''
      = [] @ [''SKILLS''] @ [''python''] @ [''Skills:''] @ [''java'', ''EDUCATION'', ''mit'']"
    by code_simp
  have h2: "matched_section (strip ''SKILLS'') = Some ''skills''"
    by code_simp
  have h3: "matched_section (strip ''Skills:'') = Some ''skills''"
    by code_simp
  have h4: "list_all (\<lambda>l. matched_section (strip l) \<noteq> Some ''skills'')
      [''java'', ''EDUCATION'', ''mit'']"
    by code_simp
  have e: "strip (join [nl] (takeWhile (\<lambda>l. \<not> is_heading l) [''java'', ''EDUCATION'', ''mit'']))
      = ''java''"
    by code_simp
  have c: "map_of (extract_sections ''SKILLS\<newline>python\<newline>Skills:\<newline>java\<newline>EDUCATION\<newline>mit'')
        ''skills'' = Some ''java''"
    using repeated_label_overwrites [OF h1 h2 h3 h4] by (simp only: e)
  from h1 h2 h3 h4 c show ?thesis by blast
qed

text \<open>
  Claim C2, as stated, fails: a heading line is appended to no buffer. In the text that
  consists of the line \<open>SKILLS\<close> that line occurs once, and in no block of the result.
\<close>

theorem sections_partition_counterexample:
  "extract_sections ''SKILLS'' = [(''header'', []), (''skills'', [])]
   \<and> count_list (split_on nl ''SKILLS'') ''SKILLS'' = 1
   \<and> count_list (section_lines (extract_sections ''SKILLS'')) ''SKILLS'' = 0"
  by code_simp

text \<open>
  Claim C2, amended. Every line of the input that is not a heading is appended to exactly
  one buffer, in the order of the input, and a heading line to none: the buffers of the
  flushes, one after the other, are the lines that are not headings. The dictionary is
  the replay of the flushes, so a label holds the newline-join of the last buffer flushed
  under it, trimmed.
\<close>

theorem sections_from_flushes:
  "concat (map snd (run_log ''header'' [] (split_on nl text)))
      = filter (\<lambda>l. \<not> is_heading l) (split_on nl text)
   \<and> extract_sections text = foldl store [] (run_log ''header'' [] (split_on nl text))
   \<and> map_of (extract_sections text)
      = map_of (rev (map (\<lambda>e. (fst e, strip (join [nl] (snd e))))
                  (run_log ''header'' [] (split_on nl text))))"
  using map_of_extract_sections [of "text"]
  by (simp add: run_log_buffers extract_sections_log is_heading_def)

text \<open>An instance of the amended C2, on a text of three lines with one heading.\<close>

theorem sections_from_flushes_witness:
  "concat (map snd (run_log ''header'' [] (split_on nl ''Jane\<newline>SKILLS\<newline>python'')))
      = filter (\<lambda>l. \<not> is_heading l) (split_on nl ''Jane\<newline>SKILLS\<newline>python'')
   \<and> extract_sections ''Jane\<newline>SKILLS\<newline>python''
      = foldl store [] (run_log ''header'' [] (split_on nl ''Jane\<newline>SKILLS\<newline>python''))
   \<and> map_of (extract_sections ''Jane\<newline>SKILLS\<newline>python'')
      = map_of (rev (map (\<lambda>e. (fst e, strip (join [nl] (snd e))))
                  (run_log ''header'' [] (split_on nl ''Jane\<newline>SKILLS\<newline>python''))))"
  by (rule sections_from_flushes)

text \<open>
  Claim C6, as stated, fails in its second half: the key \<open>header\<close> is always in the
  dictionary, so the default of 1000 characters is never taken. A text of 1200 letters
  has no heading, and its header is the whole of it.
\<close>

theorem header_default_counterexample:
  "filter is_heading (split_on nl (replicate 1200 CHR ''a'')) = []
   \<and> header_text (replicate 1200 CHR ''a'') = replicate 1200 CHR ''a''
   \<and> take 1000 (replicate 1200 CHR ''a'') = replicate 1000 CHR ''a''"
proof -
  have r: "replicate 1200 CHR ''a'' = CHR ''a'' # CHR ''a'' # replicate 1198 CHR ''a''"
    by (simp add: numeral_eq_Suc)
  have sp: "split_on nl (replicate 1200 CHR ''a'') = [replicate 1200 CHR ''a'']"
    by (rule split_on_no_sep) simp
  have st: "strip (replicate 1200 CHR ''a'') = replicate 1200 CHR ''a''"
    by (rule strip_id) (simp_all add: not_space_a hd_replicate)
  have "matched_section (strip (replicate 1200 CHR ''a''))
      = matched_section (replicate 1200 CHR ''a'')"
    by (simp only: st)
  also have "\<dots> = None"
    by (subst r) (rule aa_no_heading)
  finally have nh: "\<not> is_heading (replicate 1200 CHR ''a'')"
    by (simp add: is_heading_def)
  have h: "header_text (replicate 1200 CHR ''a'')
      = strip (join [nl] (takeWhile (\<lambda>l. \<not> is_heading l) (split_on nl (replicate 1200 CHR ''a''))))"
    by (simp add: header_text_def dict_get_def lookup_header)
  show ?thesis
    unfolding h sp using nh st by simp
qed

text \<open>
  Claim C6, amended. The header is the newline-join of the lines before the first heading,
  trimmed; when no line is a heading it is the whole text, trimmed. The copy in
  \<open>raw_sections\<close> is its first 500 characters.
\<close>

theorem header_section:
  "header_text text = strip (join [nl] (takeWhile (\<lambda>l. \<not> is_heading l) (split_on nl text)))
   \<and> (list_all (\<lambda>l. \<not> is_heading l) (split_on nl text) \<longrightarrow> header_text text = strip text)
   \<and> (\<exists>r. parse_text nlp now text = Inr r
         \<and> map_of (raw_sections r) ''header'' = Some (take 500 (header_text text)))"
proof -
  have h: "header_text text
      = strip (join [nl] (takeWhile (\<lambda>l. \<not> is_heading l) (split_on nl text)))"
    by (simp add: header_text_def dict_get_def lookup_header)
  have a: "header_text text = strip text" if "list_all (\<lambda>l. \<not> is_heading l) (split_on nl text)"
  proof -
    from that have tw: "takeWhile (\<lambda>l. \<not> is_heading l) (split_on nl text) = split_on nl text"
      by (simp add: takeWhile_eq_all_conv list_all_iff)
    show ?thesis by (simp only: h tw join_split_on)
  qed
  obtain r where r: "parse_text nlp now text = Inr r"
    and raw: "raw_sections r = map (\<lambda>(k, v). (k, take 500 v)) (extract_sections text)"
    using parse_text_fields by blast
  have "map_of (raw_sections r) ''header'' = Some (take 500 (header_text text))"
    by (simp add: raw map_of_map lookup_header h)
  with h a r show ?thesis by blast
qed

text \<open>An instance of the amended C6: a text of two lines, neither a heading.\<close>

theorem header_section_witness:
  "list_all (\<lambda>l. \<not> is_heading l) (split_on nl ''Jane Doe\<newline>Python '')
   \<and> header_text ''Jane Doe\<newline>Python '' = strip ''Jane Doe\<newline>Python ''
   \<and> (\<exists>r. parse_text None ''2026-11-03T10:00:00'' ''Jane Doe\<newline>Python '' = Inr r
         \<and> map_of (raw_sections r) ''header''
             = Some (take 500 (header_text ''Jane Doe\<newline>Python '')))"
proof -
  have h: "list_all (\<lambda>l. \<not> is_heading l) (split_on nl ''Jane Doe\<newline>Python '')"
    by code_simp
  from header_section [of "''Jane Doe\<newline>Python ''" None "''2026-11-03T10:00:00''"] h
  show ?thesis by blast
qed

text \<open>
  Claim C7. The experience extractor splits the text at the runs of two or more newlines
  (\<open>blocks\<close>, which the split at the pattern \<open>\n{2,}\<close> computes) and returns, in
  order, one record for each block that contains a date match, and none for any other
  block; the record is the one the specification describes. A block with a
  date match contains a digit, so it has a non-empty line and the title is defined.
\<close>
theorem experience_blocks:
  "extract_experience text = Inr (map experience_of_block (filter has_date (blocks text)))"
  by (simp add: extract_experience_def exp_loop_spec re_split_blank_gap)

text \<open>
  An instance of C7: three blocks, the second without a date; the gap of three newlines is
  one separator.
\<close>

theorem experience_blocks_witness:
  "extract_experience ''Dev\<newline>Acme\<newline>Jan 2020 - now\<newline>Did it\<newline>\<newline>No date\<newline>\<newline>\<newline>Intern 2019''
     = Inr [\<lparr>title = ''Dev'', company = ''Acme'', exp_dates = [''Jan 2020''],
              exp_description = ''Jan 2020 - now\<newline>Did it''\<rparr>,
            \<lparr>title = ''Intern 2019'', company = [], exp_dates = [''2019''],
              exp_description = []\<rparr>]"
proof -
  have "map experience_of_block (filter has_date (blocks
      ''Dev\<newline>Acme\<newline>Jan 2020 - now\<newline>Did it\<newline>\<newline>No date\<newline>\<newline>\<newline>Intern 2019''))
     = [\<lparr>title = ''Dev'', company = ''Acme'', exp_dates = [''Jan 2020''],
              exp_description = ''Jan 2020 - now\<newline>Did it''\<rparr>,
            \<lparr>title = ''Intern 2019'', company = [], exp_dates = [''2019''],
              exp_description = []\<rparr>]"
    by code_simp
  then show ?thesis
    by (simp only: experience_blocks)
qed

text \<open>
  Claim C8. On the empty text every contact field is \<open>None\<close>, the skills mapping and the
  three lists of records are empty, and the score is 0. The recogniser is not part of the
  repository: the theorem asks that it, if present, reports no person in the empty text.
\<close>
theorem empty_input:
  assumes "person_entity nlp [] = None"
  shows "\<exists>r. parse_text nlp now [] = Inr r
     \<and> name (contact r) = None \<and> email (contact r) = None \<and> phone (contact r) = None
     \<and> linkedin (contact r) = None \<and> github (contact r) = None
     \<and> skills r = [] \<and> experience r = [] \<and> education r = [] \<and> projects r = []
     \<and> score r = 0"
proof -
  have sec: "extract_sections [] = [(''header'', [])]" by code_simp
  have nm: "name_loop (take 6 (nonempty_lines [])) = Inr None" by code_simp
  have em: "extract_email [] = Inr None" by code_simp
  have ph: "extract_phone [] = None" by code_simp
  have li: "extract_linkedin [] = None" by code_simp
  have gi: "extract_github [] = None" by code_simp
  have sk: "extract_skills [nl] = []" by code_simp
  have ed: "extract_education [] = Inr []" by code_simp
  obtain r where r: "parse_text nlp now [] = Inr r"
    and f: "extract_name nlp [] = Inr (name (contact r))"
      "extract_email [] = Inr (email (contact r))"
      "phone (contact r) = extract_phone []"
      "linkedin (contact r) = extract_linkedin []"
      "github (contact r) = extract_github []"
      "summary r = dict_get (extract_sections []) ''summary'' []"
      "skills r = extract_skills (dict_get (extract_sections []) ''skills'' [] @ [nl] @ [])"
      "(if dict_get (extract_sections []) ''experience'' [] \<noteq> []
         then extract_experience (dict_get (extract_sections []) ''experience'' [])
         else Inr []) = Inr (experience r)"
      "(if dict_get (extract_sections []) ''education'' [] \<noteq> []
         then extract_education (dict_get (extract_sections []) ''education'' [])
         else extract_education []) = Inr (education r)"
      "(if dict_get (extract_sections []) ''projects'' [] \<noteq> []
         then extract_projects (dict_get (extract_sections []) ''projects'' [])
         else Inr []) = Inr (projects r)"
      "score r = calculate_score r"
    using parse_text_fields [of nlp now "[]"] by blast
  have g: "name (contact r) = None" "email (contact r) = None" "phone (contact r) = None"
    "linkedin (contact r) = None" "github (contact r) = None" "summary r = []"
    "skills r = []" "experience r = []" "education r = []" "projects r = []"
    using f assms by (simp_all add: sec nm em ph li gi sk ed dict_get_def extract_name_def)
  have "score r = 0"
    by (simp add: f(11) calculate_score_sum score_sum_def g truthy_def skills_flat_def)
  with r g show ?thesis by blast
qed

text \<open>An instance of C8: no recogniser.\<close>

theorem empty_input_witness:
  "person_entity None [] = None
   \<and> (\<exists>r. parse_text None ''2026-11-03T10:00:00'' [] = Inr r
     \<and> name (contact r) = None \<and> email (contact r) = None \<and> phone (contact r) = None
     \<and> linkedin (contact r) = None \<and> github (contact r) = None
     \<and> skills r = [] \<and> experience r = [] \<and> education r = [] \<and> projects r = []
     \<and> score r = 0)"
proof -
  have h: "person_entity None [] = None" by (simp add: person_entity_def)
  from empty_input [OF h, of "''2026-11-03T10:00:00''"] h show ?thesis by blast
qed

text \<open>
  Claim C10. Each project record is made from one block: its technologies are the first
  eight keywords found in the full description of the block, its description the first
  300 characters of the same text. So a technology can be listed that the stored
  description does not contain: for \<open>long_project\<close> the keyword lies past the cut, the
  stored description is 300 dashes, and \<open>Python\<close> is listed.
\<close>
theorem technologies_from_full_description:
  "extract_projects text
     = Inr (take 5 (map project_of_block (filter (\<lambda>b. nonempty_lines b \<noteq> []) (blocks text))))
   \<and> extract_projects long_project
     = Inr [\<lparr>proj_name = ''Tool'', proj_description = replicate 300 CHR ''-'',
              technologies = [''Python'']\<rparr>]"
proof
  show "extract_projects text
     = Inr (take 5 (map project_of_block (filter (\<lambda>b. nonempty_lines b \<noteq> []) (blocks text))))"
    by (rule extract_projects_spec)
  show "extract_projects long_project
     = Inr [\<lparr>proj_name = ''Tool'', proj_description = replicate 300 CHR ''-'',
              technologies = [''Python'']\<rparr>]"
    unfolding extract_projects_spec long_block_split
    by (simp add: project_of_block_def full_description_def long_block_lines techs_past_cut)
qed

text \<open>An instance of C10 on a text of two blocks.\<close>

theorem technologies_from_full_description_witness:
  "extract_projects ''Site\<newline>built with Django\<newline>\<newline>\<newline>App''
     = Inr [\<lparr>proj_name = ''Site'', proj_description = ''built with Django'',
              technologies = [''Django'']\<rparr>,
            \<lparr>proj_name = ''App'', proj_description = [], technologies = []\<rparr>]"
proof -
  have "take 5 (map project_of_block (filter (\<lambda>b. nonempty_lines b \<noteq> [])
      (blocks ''Site\<newline>built with Django\<newline>\<newline>\<newline>App'')))
     = [\<lparr>proj_name = ''Site'', proj_description = ''built with Django'',
              technologies = [''Django'']\<rparr>,
        \<lparr>proj_name = ''App'', proj_description = [], technologies = []\<rparr>]"
    by code_simp
  with technologies_from_full_description
    [of "''Site\<newline>built with Django\<newline>\<newline>\<newline>App''"]
  show ?thesis by (simp only:)
qed

end
